theory Spec2Isabelle
  imports Main "HOL-Library.AList"
begin

section \<open>Meme-Stock-Tracker: a shallow embedding of \<open>meme_stock_tracker.py\<close>\<close>

text \<open>
  The program is one Python module. Its functions read and write \<open>config.ini\<close> through
  \<open>configparser\<close>, validate a schedule time with \<open>datetime.strptime\<close>, render a prompt with
  \<open>str.format\<close>, call a remote service under a \<open>tenacity\<close> retry decorator and write a
  dated report file. Each function becomes a HOL function that takes the state of the
  outside world and returns the new one; every \<open>raise\<close> is a value of type \<open>py_exception\<close>.

  Strings are lists of 8-bit characters, read as the code points U+0000 to U+00FF.
\<close>

subsection \<open>Python string primitives\<close>

text \<open>\<open>str.isspace\<close> on one code point below U+0100; the regular expression class \<open>\s\<close> of a
  \<open>str\<close> pattern is the same set.\<close>

definition is_space :: "char \<Rightarrow> bool" where
  "is_space c \<longleftrightarrow> c \<in> set [CHR 0x09, CHR 0x0A, CHR 0x0B, CHR 0x0C, CHR 0x0D,
                           CHR 0x1C, CHR 0x1D, CHR 0x1E, CHR 0x1F, CHR 0x20, CHR 0x85, CHR 0xA0]"

definition lstrip :: "string \<Rightarrow> string" where
  "lstrip s = dropWhile is_space s"

definition rstrip :: "string \<Rightarrow> string" where
  "rstrip s = rev (dropWhile is_space (rev s))"

definition strip :: "string \<Rightarrow> string" where
  "strip s = lstrip (rstrip s)"

text \<open>\<open>str.lower\<close>: the upper-case letters below U+0100 are A to Z and U+00C0 to U+00DE
  without the multiplication sign U+00D7; each is 32 below its lower-case form.\<close>

definition is_upper :: "char \<Rightarrow> bool" where
  "is_upper c \<longleftrightarrow> (let n = (of_char c :: nat) in
      (65 \<le> n \<and> n \<le> 90) \<or> (192 \<le> n \<and> n \<le> 222 \<and> n \<noteq> 215))"

definition lower_char :: "char \<Rightarrow> char" where
  "lower_char c = (if is_upper c then char_of ((of_char c :: nat) + 32) else c)"

definition lower :: "string \<Rightarrow> string" where
  "lower s = map lower_char s"

definition startswith :: "string \<Rightarrow> string \<Rightarrow> bool" where
  "startswith s p \<longleftrightarrow> take (length p) s = p"

text \<open>\<open>sep.join(parts)\<close>.\<close>

fun join :: "string \<Rightarrow> string list \<Rightarrow> string" where
  "join sep [] = []"
| "join sep [x] = x"
| "join sep (x # y # ys) = x @ sep @ join sep (y # ys)"

text \<open>\<open>s.split(sep)\<close> for a one-character separator: never an empty list.\<close>

fun split_on :: "char \<Rightarrow> string \<Rightarrow> string list" where
  "split_on sep [] = [[]]"
| "split_on sep (c # cs) =
     (if c = sep then [] # split_on sep cs
      else (case split_on sep cs of [] \<Rightarrow> [[c]] | p # ps \<Rightarrow> (c # p) # ps))"

subsection \<open>Exceptions\<close>

datatype cfg_error =
    MissingSectionHeaderError
  | DuplicateSectionError
  | DuplicateOptionError
  | ParsingError

datatype py_exception =
    ValueError
  | UnicodeDecodeError
  | ImportError
  | KeyError
  | IndexError
  | TypeError
  | AttributeError
  | EOFError
  | OSError
  | FileNotFoundError
  | TclError
  | ConfigParserError cfg_error
  | APIError
  | CalledProcessError
  | RetryError py_exception
  | OtherException string

text \<open>\<open>UnicodeDecodeError\<close> is a subclass of \<open>ValueError\<close>: a clause \<open>except ValueError\<close> takes
  both.\<close>

definition is_ValueError :: "py_exception \<Rightarrow> bool" where
  "is_ValueError ex \<longleftrightarrow> ex = ValueError \<or> ex = UnicodeDecodeError"

subsection \<open>configparser: reading\<close>

text \<open>
  The parser is \<open>ConfigParser(interpolation=None)\<close> with its defaults: delimiters \<open>=\<close> and
  \<open>:\<close>, full-line comment prefixes \<open>#\<close> and \<open>;\<close>, no inline comments, \<open>strict\<close>,
  \<open>empty_lines_in_values\<close>, no valueless options, default section \<open>DEFAULT\<close>, and
  \<open>optionxform = str.lower\<close>.

  A file opened in text mode is read with universal newlines: \<open>\r\n\<close> and \<open>\r\<close> arrive as
  \<open>\n\<close>. Iterating the file yields its lines; the terminating \<open>\n\<close> of a line is white
  space at its end, which \<open>_read\<close> never looks at, so lines are kept without it.
\<close>

fun universal_newlines :: "string \<Rightarrow> string" where
  "universal_newlines [] = []"
| "universal_newlines [c] = (if c = CHR 0x0D then [CHR 0x0A] else [c])"
| "universal_newlines (c # d # s) =
     (if c = CHR 0x0D \<and> d = CHR 0x0A then CHR 0x0A # universal_newlines s
      else if c = CHR 0x0D then CHR 0x0A # universal_newlines (d # s)
      else c # universal_newlines (d # s))"

fun lines_acc :: "string \<Rightarrow> string \<Rightarrow> string list" where
  "lines_acc cur [] = (if cur = [] then [] else [rev cur])"
| "lines_acc cur (c # cs) =
     (if c = CHR 0x0A then rev cur # lines_acc [] cs else lines_acc (c # cur) cs)"

definition file_lines :: "string \<Rightarrow> string list" where
  "file_lines s = lines_acc [] (universal_newlines s)"

text \<open>\<open>SECTCRE.match(value)\<close> with \<open>SECTCRE = \[(?P<header>.+)\]\<close>: an opening bracket, then
  the longest non-empty run without a newline that is followed by a closing bracket.
  The result is the group \<open>header\<close>.\<close>

definition sect_match :: "string \<Rightarrow> string option" where
  "sect_match v =
     (case v of
        [] \<Rightarrow> None
      | c # rest \<Rightarrow>
          if c \<noteq> CHR ''['' then None
          else (case dropWhile (\<lambda>x. x \<noteq> CHR '']'') (rev (takeWhile (\<lambda>x. x \<noteq> CHR 0x0A) rest)) of
                  [] \<Rightarrow> None
                | _ # h \<Rightarrow> if h = [] then None else Some (rev h)))"

definition is_delim :: "char \<Rightarrow> bool" where
  "is_delim c \<longleftrightarrow> c = CHR ''='' \<or> c = CHR '':''"

text \<open>\<open>OPTCRE.match(value)\<close> with
  \<open>OPTCRE = (?P<option>.*?)\s*(?P<vi>=|:)\s*(?P<value>.*)$\<close> on a line without newline: the
  lazy \<open>option\<close> group ends where the white space before the first delimiter begins, the
  \<open>value\<close> group starts after the white space that follows that delimiter. The result is
  the pair of groups \<open>(option, value)\<close>.\<close>

definition opt_match :: "string \<Rightarrow> (string \<times> string) option" where
  "opt_match v =
     (case dropWhile (\<lambda>c. \<not> is_delim c) v of
        [] \<Rightarrow> None
      | _ # after \<Rightarrow>
          Some (rev (dropWhile is_space (rev (takeWhile (\<lambda>c. \<not> is_delim c) v))),
                dropWhile is_space after))"

definition DEFAULTSECT :: string where
  "DEFAULTSECT = ''DEFAULT''"

type_synonym 'v pydict = "(string \<times> 'v) list"

text \<open>The parser object while \<open>_read\<close> runs: values are lists of lines until
  \<open>_join_multiline_values\<close>. A Python \<open>dict\<close> keeps insertion order, so it is an association
  list with distinct keys: \<open>AList.update\<close> overwrites in place or appends.

  \<open>cursect\<close> is \<open>None\<close>, \<open>self._defaults\<close> or \<open>self._sections[sectname]\<close> and is determined by
  \<open>sectname\<close>. The parser object is fresh in every call of this program, so the set
  \<open>elements_added\<close> holds exactly the section names in \<open>p_sections\<close> and the pairs
  \<open>(sectname, optname)\<close> of the options stored so far.\<close>

record parser =
  p_defaults :: "string list pydict"
  p_sections :: "(string list pydict) pydict"
  sectname :: "string option"
  optname :: "string option"
  indent_level :: nat
  e :: bool

definition parser_init :: parser where
  "parser_init = \<lparr> p_defaults = [], p_sections = [], sectname = None, optname = None,
                    indent_level = 0, e = False \<rparr>"

definition cursect :: "parser \<Rightarrow> string list pydict" where
  "cursect p =
     (case sectname p of
        None \<Rightarrow> []
      | Some n \<Rightarrow> if n = DEFAULTSECT then p_defaults p
                  else (case map_of (p_sections p) n of None \<Rightarrow> [] | Some d \<Rightarrow> d))"

definition cursect_update :: "(string list pydict \<Rightarrow> string list pydict) \<Rightarrow> parser \<Rightarrow> parser" where
  "cursect_update f p =
     (case sectname p of
        None \<Rightarrow> p
      | Some n \<Rightarrow> if n = DEFAULTSECT then p\<lparr>p_defaults := f (p_defaults p)\<rparr>
                  else p\<lparr>p_sections := AList.map_entry n f (p_sections p)\<rparr>)"

text \<open>Python truth of \<open>optname\<close>: set and not the empty string.\<close>

definition optname_set :: "parser \<Rightarrow> bool" where
  "optname_set p \<longleftrightarrow> (case optname p of None \<Rightarrow> False | Some n \<Rightarrow> n \<noteq> [])"

definition is_comment :: "string \<Rightarrow> bool" where
  "is_comment line \<longleftrightarrow> startswith (strip line) ''#'' \<or> startswith (strip line) '';''"

text \<open>One iteration of the loop of \<open>_read\<close>.\<close>

definition read_line :: "parser \<Rightarrow> string \<Rightarrow> cfg_error + parser" where
  "read_line p line =
     (let value = (if is_comment line then [] else strip line) in
      if value = [] then
        (if \<not> is_comment line \<and> sectname p \<noteq> None \<and> optname_set p
         then Inr (cursect_update (AList.map_entry (the (optname p)) (\<lambda>ls. ls @ [[]])) p)
         else Inr p)
      else
        let cur_indent_level = length (takeWhile is_space line) in
        if sectname p \<noteq> None \<and> optname_set p \<and> cur_indent_level > indent_level p
        then Inr (cursect_update (AList.map_entry (the (optname p)) (\<lambda>ls. ls @ [value])) p)
        else
          let p = p\<lparr>indent_level := cur_indent_level\<rparr> in
          (case sect_match value of
             Some header \<Rightarrow>
               if header \<in> set (map fst (p_sections p)) then Inl DuplicateSectionError
               else if header = DEFAULTSECT
               then Inr (p\<lparr>sectname := Some header, optname := None\<rparr>)
               else Inr (p\<lparr>p_sections := p_sections p @ [(header, [])],
                           sectname := Some header, optname := None\<rparr>)
           | None \<Rightarrow>
               if sectname p = None then Inl MissingSectionHeaderError
               else
                 (case opt_match value of
                    Some (option, optval) \<Rightarrow>
                      let p = (if option = [] then p\<lparr>e := True\<rparr> else p);
                          name = lower (rstrip option)
                      in if name \<in> set (map fst (cursect p)) then Inl DuplicateOptionError
                         else Inr ((cursect_update (AList.update name [strip optval]) p)
                                     \<lparr>optname := Some name\<rparr>)
                  | None \<Rightarrow> Inr (p\<lparr>e := True\<rparr>))))"

fun read_lines :: "parser \<Rightarrow> string list \<Rightarrow> cfg_error + parser" where
  "read_lines p [] = Inr p"
| "read_lines p (l # ls) =
     (case read_line p l of Inl err \<Rightarrow> Inl err | Inr p' \<Rightarrow> read_lines p' ls)"

text \<open>The parsed configuration, as \<open>ConfigParser\<close> holds it after \<open>read\<close>.\<close>

record config =
  defaults :: "string pydict"
  sections :: "(string pydict) pydict"

definition join_value :: "string list \<Rightarrow> string" where
  "join_value ls = rstrip (join [CHR 0x0A] ls)"

definition join_multiline_values :: "parser \<Rightarrow> config" where
  "join_multiline_values p =
     \<lparr> defaults = map (\<lambda>(k, ls). (k, join_value ls)) (p_defaults p),
       sections = map (\<lambda>(n, d). (n, map (\<lambda>(k, ls). (k, join_value ls)) d)) (p_sections p) \<rparr>"

text \<open>\<open>config.read(path)\<close> on the text of an existing file.\<close>

definition config_read :: "string \<Rightarrow> cfg_error + config" where
  "config_read text =
     (case read_lines parser_init (file_lines text) of
        Inl err \<Rightarrow> Inl err
      | Inr p \<Rightarrow> if e p then Inl ParsingError else Inr (join_multiline_values p))"

definition config_empty :: config where
  "config_empty = \<lparr> defaults = [], sections = [] \<rparr>"

subsection \<open>configparser: lookup, update and writing\<close>

text \<open>\<open>config.get(section, option, fallback=fallback)\<close>: the section's own options come
  before those of \<open>DEFAULT\<close>; an unknown section other than \<open>DEFAULT\<close> is \<open>NoSectionError\<close>,
  which the fallback absorbs.\<close>

definition config_get :: "config \<Rightarrow> string \<Rightarrow> string \<Rightarrow> string option \<Rightarrow> string option" where
  "config_get c section option fallback =
     (case map_of (sections c) section of
        None \<Rightarrow>
          if section \<noteq> DEFAULTSECT then fallback
          else (case map_of (defaults c) (lower option) of
                  None \<Rightarrow> fallback | Some v \<Rightarrow> Some v)
      | Some d \<Rightarrow>
          (case map_of d (lower option) of
             Some v \<Rightarrow> Some v
           | None \<Rightarrow> (case map_of (defaults c) (lower option) of
                        None \<Rightarrow> fallback | Some v \<Rightarrow> Some v)))"

definition has_section :: "config \<Rightarrow> string \<Rightarrow> bool" where
  "has_section c section \<longleftrightarrow> section \<in> set (map fst (sections c))"

text \<open>\<open>config.add_section(section)\<close> raises \<open>ValueError\<close> for the name \<open>DEFAULT\<close>.\<close>

definition add_section :: "config \<Rightarrow> string \<Rightarrow> py_exception + config" where
  "add_section c section =
     (if section = DEFAULTSECT then Inl ValueError
      else if section \<in> set (map fst (sections c)) then Inl (ConfigParserError DuplicateSectionError)
      else Inr (c\<lparr>sections := sections c @ [(section, [])]\<rparr>))"

text \<open>\<open>config.set(section, option, value)\<close> for an existing section: an empty section name
  or \<open>DEFAULT\<close> addresses the defaults.\<close>

definition config_set :: "config \<Rightarrow> string \<Rightarrow> string \<Rightarrow> string \<Rightarrow> config" where
  "config_set c section option v =
     (if section = [] \<or> section = DEFAULTSECT
      then c\<lparr>defaults := AList.update (lower option) v (defaults c)\<rparr>
      else c\<lparr>sections := AList.map_entry section (AList.update (lower option) v) (sections c)\<rparr>)"

definition replace_newlines :: "string \<Rightarrow> string" where
  "replace_newlines v = concat (map (\<lambda>c. if c = CHR 0x0A then [CHR 0x0A, CHR 0x09] else [c]) v)"

definition write_section :: "string \<Rightarrow> string pydict \<Rightarrow> string" where
  "write_section name items =
     ''['' @ name @ '']'' @ [CHR 0x0A] @
     concat (map (\<lambda>(k, v). k @ '' = '' @ replace_newlines v @ [CHR 0x0A]) items) @
     [CHR 0x0A]"

definition config_write :: "config \<Rightarrow> string" where
  "config_write c =
     (if defaults c \<noteq> [] then write_section DEFAULTSECT (defaults c) else []) @
     concat (map (\<lambda>(n, items). write_section n items) (sections c))"

subsection \<open>The outside world\<close>

text \<open>What \<open>print\<close> writes: a literal, an f-string (the source's text with the values of its
  replacement fields, in order), or an f-string whose only field is an exception.\<close>

datatype printed =
    Print string
  | PrintF string "string list"
  | PrintExc string py_exception

text \<open>The response of the service: its attribute \<open>text\<close>, which may be \<open>None\<close>.\<close>

text \<open>One replacement field of a format string: field name, conversion, format
  specification.\<close>

datatype field = Field (field_name: string) (conversion: "char option") (format_spec: string)

datatype response = Response (response_text: "string option")

text \<open>The request that \<open>client.models.generate_content\<close> sends: API key, model, prompt.\<close>

type_synonym request = "string \<times> string \<times> string"

text \<open>
  Files are the files of the directory \<open>get_base_path()\<close>, by name: \<open>files\<close> gives the text
  that reading a file yields, and \<open>undecodable\<close> says that after this text the bytes of the
  file stop being text in the encoding of the locale, so that reading on raises
  \<open>UnicodeDecodeError\<close>. \<open>tkinter_importable\<close>, \<open>tenacity_importable\<close>, \<open>pillow_importable\<close> and
  \<open>zoneinfo_importable\<close> say whether the imports at the top of the script succeed,
  \<open>genai_importable\<close> whether those at the top of \<open>get_meme_stocks\<close> do, and \<open>genai_exceptions\<close>
  whether the module \<open>google.genai\<close> has an attribute \<open>exceptions\<close> with a class \<open>APIError\<close>
  (the SDK as published declares its error classes in \<open>google.genai.errors\<close> and has no
  attribute \<open>exceptions\<close>). \<open>backend\<close> is what the
  service does at its n-th call (counted from 0) with a given request; exceptions it raises
  are instances of \<open>Exception\<close>. \<open>sleeps\<close> are the waits the retry decorator has asked for.
  \<open>today\<close> is \<open>datetime.date.today().strftime("%Y-%m-%d")\<close>; \<open>now\<close> is the time stamp of the
  automated run's first line. \<open>editor\<close> is the round trip of \<open>edit_prompt\<close> through a temporary
  file and the system's editor: from the text written to the text read back, or the
  exception raised on the way. \<open>format_other\<close> is what \<open>str.format\<close> does with a replacement
  field that has an attribute or index access, a conversion or a format specification, or
  that addresses a positional argument.
\<close>

record world =
  files :: "string \<rightharpoonup> string"
  undecodable :: "string \<Rightarrow> bool"
  writable :: "string \<Rightarrow> bool"
  stdin :: "string list"
  stdout :: "printed list"
  argv :: "string list"
  today :: string
  now :: string
  tkinter_importable :: bool
  tenacity_importable :: bool
  pillow_importable :: bool
  zoneinfo_importable :: bool
  genai_importable :: bool
  genai_exceptions :: bool
  backend :: "nat \<Rightarrow> request \<Rightarrow> py_exception + response"
  backend_calls :: nat
  sleeps :: "int list"
  display_error :: "py_exception option"
  windows :: "(string \<times> string) list"
  platform_win32 :: bool
  frozen :: bool
  executable :: string
  script_path :: string
  utc_offset_minutes :: int
  schtasks_error :: "py_exception option"
  tasks :: "string \<rightharpoonup> string \<times> string"
  editor :: "string \<Rightarrow> py_exception + string"
  format_other :: "field \<Rightarrow> string \<Rightarrow> py_exception + string"
  easter_egg_error :: "py_exception option"

definition NL :: string where
  "NL = [CHR 0x0A]"

definition py_print :: "printed \<Rightarrow> world \<Rightarrow> world" where
  "py_print x w = w\<lparr>stdout := stdout w @ [x]\<rparr>"

text \<open>\<open>input(prompt)\<close>: the prompt is written, then a line is read; at the end of the input
  \<open>EOFError\<close> is raised.\<close>

definition py_input :: "string \<Rightarrow> world \<Rightarrow> (py_exception + string) \<times> world" where
  "py_input prompt w =
     (case stdin w of
        [] \<Rightarrow> (Inl EOFError, py_print (Print prompt) w)
      | l # ls \<Rightarrow> (Inr l, (py_print (Print prompt) w)\<lparr>stdin := ls\<rparr>))"

text \<open>\<open>len(sys.argv) > 1 and sys.argv[1] == 'run'\<close>.\<close>

definition run_marker :: "world \<Rightarrow> bool" where
  "run_marker w \<longleftrightarrow> length (argv w) > 1 \<and> argv w ! 1 = ''run''"

subsection \<open>Configuration access\<close>

definition DEFAULT_PROMPT_TEMPLATE :: string where
  "DEFAULT_PROMPT_TEMPLATE =
     ''Pre-open {today_date}, list 10 likely meme stocks today. Browse, cite, and rank by buzz + '' @
     ''squeeze risk + fresh catalyst. Give a compact table: Ticker, pre-mkt move/vol, short interest %, '' @
     ''days-to-cover, borrow fee/utilization, options vol & put/call, retail-mention trend, catalyst note, '' @
     ''risk flags. Then 3 runners-up and 3 bullet 'watch items' (levels/halts).''"

text \<open>The source puts \<open>watch items\<close> between the quotation marks U+2018 and U+2019, which
  lie outside the 8-bit alphabet; they stand as apostrophes here.\<close>

definition DEFAULT_MODEL :: string where
  "DEFAULT_MODEL = ''gemini-2.5-pro''"

definition DEFAULT_SCHEDULE_TIME_UTC :: string where
  "DEFAULT_SCHEDULE_TIME_UTC = ''13:25''"

definition config_ini :: string where
  "config_ini = ''config.ini''"

text \<open>\<open>config.read(config_path)\<close>: a file that does not exist is skipped. The lines are parsed
  as they are read, so an error of the parser that is raised at once comes before the
  \<open>UnicodeDecodeError\<close> of text further down; \<open>ParsingError\<close> is raised after the last line
  only.\<close>

definition config_read_file :: "world \<Rightarrow> py_exception + config" where
  "config_read_file w =
     (case files w config_ini of
        None \<Rightarrow> Inr config_empty
      | Some txt \<Rightarrow>
          if undecodable w config_ini
          then (case read_lines parser_init (file_lines txt) of
                  Inl err \<Rightarrow> Inl (ConfigParserError err)
                | Inr _ \<Rightarrow> Inl UnicodeDecodeError)
          else (case config_read txt of
                  Inl err \<Rightarrow> Inl (ConfigParserError err)
                | Inr c \<Rightarrow> Inr c))"

definition is_configparser_Error :: "py_exception \<Rightarrow> bool" where
  "is_configparser_Error ex \<longleftrightarrow> (case ex of ConfigParserError _ \<Rightarrow> True | _ \<Rightarrow> False)"

text \<open>\<open>get_config_value\<close>: only \<open>configparser.Error\<close> is handled, any other exception of
  \<open>config.read\<close> leaves the function.\<close>

definition get_config_value ::
  "string \<Rightarrow> string \<Rightarrow> string option \<Rightarrow> world \<Rightarrow> (py_exception + string option) \<times> world" where
  "get_config_value section key fallback w =
     (if files w config_ini = None then (Inr fallback, w)
      else
        (case config_read_file w of
           Inl ex \<Rightarrow>
             if is_configparser_Error ex
             then (Inr fallback, py_print (PrintExc ''Error reading config: {e}'' ex) w)
             else (Inl ex, w)
         | Inr c \<Rightarrow> (Inr (config_get c section key fallback), w)))"

text \<open>\<open>set_config_value\<close>: \<open>configparser.Error\<close> and \<open>IOError\<close> are handled. \<open>ValueError\<close> from
  \<open>add_section\<close> and \<open>UnicodeDecodeError\<close> from \<open>config.read\<close> are neither and leave the
  function. A file that cannot be opened for writing is left as it was; a file that is
  written holds the text written and nothing else.\<close>

definition set_config_value ::
  "string \<Rightarrow> string \<Rightarrow> string \<Rightarrow> world \<Rightarrow> (py_exception + bool) \<times> world" where
  "set_config_value section key v w =
     (let failed = (\<lambda>ex. (Inr False, py_print (PrintExc ''Error writing to config: {e}'' ex) w))
      in case config_read_file w of
           Inl ex \<Rightarrow> if is_configparser_Error ex then failed ex else (Inl ex, w)
         | Inr c \<Rightarrow>
             (case (if has_section c section then Inr c else add_section c section) of
                Inl ex \<Rightarrow> if is_configparser_Error ex then failed ex else (Inl ex, w)
              | Inr c1 \<Rightarrow>
                  if writable w config_ini
                  then (Inr True,
                        w\<lparr>files := (files w)(config_ini \<mapsto> config_write (config_set c1 section key v)),
                          undecodable := (undecodable w)(config_ini := False)\<rparr>)
                  else failed OSError))"

subsection \<open>Validating and applying the schedule time\<close>

definition is_digit :: "char \<Rightarrow> bool" where
  "is_digit c \<longleftrightarrow> c \<in> set ''0123456789''"

definition digit_val :: "char \<Rightarrow> nat" where
  "digit_val c = of_char c - 48"

definition digits_val :: "string \<Rightarrow> nat" where
  "digits_val s = foldl (\<lambda>n c. 10 * n + digit_val c) 0 s"

text \<open>The group \<open>(?P<H>2[0-3]|[0-1]\d|\d)\<close> at the start of a string: every way it matches,
  in the order in which the matcher tries them, each with the rest of the string.\<close>

definition re_H :: "string \<Rightarrow> (string \<times> string) list" where
  "re_H s =
     (case s of
        a # b # r \<Rightarrow>
          (if a = CHR ''2'' \<and> b \<in> set ''0123'' then [([a, b], r)] else []) @
          (if a \<in> set ''01'' \<and> is_digit b then [([a, b], r)] else []) @
          (if is_digit a then [([a], b # r)] else [])
      | [a] \<Rightarrow> if is_digit a then [([a], [])] else []
      | [] \<Rightarrow> [])"

text \<open>The group \<open>(?P<M>[0-5]\d|\d)\<close> likewise.\<close>

definition re_M :: "string \<Rightarrow> (string \<times> string) list" where
  "re_M s =
     (case s of
        a # b # r \<Rightarrow>
          (if a \<in> set ''012345'' \<and> is_digit b then [([a, b], r)] else []) @
          (if is_digit a then [([a], b # r)] else [])
      | [a] \<Rightarrow> if is_digit a then [([a], [])] else []
      | [] \<Rightarrow> [])"

text \<open>\<open>datetime.datetime.strptime(s, '%H:%M')\<close>: the format compiles to the two groups with a
  colon between them; \<open>match\<close> takes the first way the pattern matches a prefix, and what
  is left over after it is "unconverted data". The result is hour and minute.\<close>

definition strptime_HM :: "string \<Rightarrow> py_exception + nat \<times> nat" where
  "strptime_HM s =
     (case concat (map (\<lambda>(h, r). case r of
                          c # r' \<Rightarrow> if c = CHR '':'' then map (\<lambda>(m, rest). (h, m, rest)) (re_M r')
                                    else []
                        | [] \<Rightarrow> []) (re_H s)) of
        [] \<Rightarrow> Inl ValueError
      | (h, m, rest) # _ \<Rightarrow>
          if rest \<noteq> [] then Inl ValueError else Inr (digits_val h, digits_val m))"

text \<open>\<open>int(s)\<close> for a string: white space around (of the code points below U+0080 only
  those of C's \<open>isspace\<close>), a sign, digits in groups joined by single underscores, at most
  4300 digits.\<close>

definition is_space_int :: "char \<Rightarrow> bool" where
  "is_space_int c \<longleftrightarrow> c \<in> set [CHR 0x09, CHR 0x0A, CHR 0x0B, CHR 0x0C, CHR 0x0D, CHR 0x20,
                               CHR 0x85, CHR 0xA0]"

definition py_int :: "string \<Rightarrow> py_exception + int" where
  "py_int s =
     (let t = dropWhile is_space_int (rev (dropWhile is_space_int (rev s)));
          (neg, body) = (case t of
                           c # r \<Rightarrow> if c = CHR ''-'' then (True, r)
                                    else if c = CHR ''+'' then (False, r) else (False, t)
                         | [] \<Rightarrow> (False, t));
          groups = split_on CHR ''_'' body
      in if (\<forall>g \<in> set groups. g \<noteq> [] \<and> (\<forall>c \<in> set g. is_digit c)) \<and>
            length (concat groups) \<le> 4300
         then Inr ((if neg then -1 else 1) * int (digits_val (concat groups)))
         else Inl ValueError)"

definition two_digits :: "nat \<Rightarrow> string" where
  "two_digits n = [char_of (48 + n div 10 mod 10), char_of (48 + n mod 10)]"

text \<open>\<open>hour, minute = map(int, utc_time_str.split(':'))\<close> and
  \<open>now_utc.replace(hour=hour, minute=minute, second=0, microsecond=0)\<close>, then
  \<open>astimezone(local_tz).strftime('%H:%M')\<close>: any number of parts other than two, or a part
  that is no integer, is \<open>ValueError\<close>; an integer outside C's \<open>int\<close> is \<open>OverflowError\<close>, a
  subclass of \<open>ArithmeticError\<close>; an hour outside 0..23 or a minute outside 0..59 is
  \<open>ValueError\<close>. The local zone is a fixed offset from UTC, in minutes.\<close>

definition local_time_str :: "int \<Rightarrow> string \<Rightarrow> py_exception + string" where
  "local_time_str offset utc_time_str =
     (case map py_int (split_on CHR '':'' utc_time_str) of
        [Inr hour, Inr minute] \<Rightarrow>
          if hour < - (2 ^ 31) \<or> hour \<ge> 2 ^ 31 \<or> minute < - (2 ^ 31) \<or> minute \<ge> 2 ^ 31
          then Inl (OtherException ''OverflowError'')
          else if hour < 0 \<or> hour > 23 \<or> minute < 0 \<or> minute > 59 then Inl ValueError
          else let t = nat ((hour * 60 + minute + offset) mod 1440)
               in Inr (two_digits (t div 60) @ '':'' @ two_digits (t mod 60))
      | _ \<Rightarrow> Inl ValueError)"

definition task_name :: string where
  "task_name = ''DailyMemeStockReport''"

definition task_action :: "world \<Rightarrow> string" where
  "task_action w =
     (if frozen w then ''\"'' @ executable w @ ''\" run''
      else ''\"'' @ executable w @ ''\" \"'' @ script_path w @ ''\" run'')"

text \<open>The closing \<open>input\<close> of a menu action, when it is asked for.\<close>

definition pause :: "bool \<Rightarrow> world \<Rightarrow> py_exception option \<times> world" where
  "pause pause_on_completion w =
     (if pause_on_completion
      then (case py_input (NL @ ''Press Enter to return to the menu...'') w of
              (Inl ex, w') \<Rightarrow> (Some ex, w')
            | (Inr _, w') \<Rightarrow> (None, w'))
      else (None, w))"

text \<open>The three handlers of \<open>schedule_task\<close> (lines 253 to 259).\<close>

definition schedule_task_except :: "string \<Rightarrow> py_exception \<Rightarrow> world \<Rightarrow> world" where
  "schedule_task_except utc_time_str ex w =
     (if ex = CalledProcessError
      then py_print (Print ''Details: {e.stderr}'')
             (py_print (Print (NL @ ''ERROR: Failed to create the scheduled task. Try running as Administrator.'')) w)
      else if is_ValueError ex
      then py_print (PrintF (NL @ ''ERROR: Invalid time format in configuration: {utc_time_str}. Error: {e}'')
                       [utc_time_str]) w
      else py_print (PrintExc (NL @ ''An unexpected error occurred during scheduling: {e}'') ex) w)"

text \<open>\<open>schtasks /create ... /f\<close> replaces the task of that name; \<open>schtasks_error\<close> is what
  \<open>subprocess.run\<close> raises, if anything. The result is the exception that leaves the
  function, if any: the configuration is read outside the \<open>try\<close>.\<close>

definition schedule_task :: "bool \<Rightarrow> world \<Rightarrow> py_exception option \<times> world" where
  "schedule_task pause_on_completion w =
     (if \<not> platform_win32 w
      then pause pause_on_completion
             (py_print (Print (NL @ ''Task scheduling is only supported on Windows.'')) w)
      else
        (case get_config_value ''Scheduler'' ''TIME_UTC'' (Some DEFAULT_SCHEDULE_TIME_UTC) w of
           (Inl ex, w) \<Rightarrow> (Some ex, w)
         | (Inr utc_time_str, w) \<Rightarrow>
             if utc_time_str = None \<or> utc_time_str = Some []
             then pause pause_on_completion
                    (py_print (Print (NL @ ''No schedule time is set. Please use the menu to set a time first.'')) w)
             else
               pause pause_on_completion
                 (case local_time_str (utc_offset_minutes w) (the utc_time_str) of
                    Inl ex \<Rightarrow> schedule_task_except (the utc_time_str) ex w
                  | Inr local \<Rightarrow>
                      let w = py_print (PrintF (NL @ ''Attempting to schedule task for {utc_time_str} UTC ({local_time_str} your time)...'')
                                          [the utc_time_str, local]) w
                      in (case schtasks_error w of
                            None \<Rightarrow>
                              py_print (PrintF ''SUCCESS: Task '{task_name}' scheduled successfully!'' [task_name])
                                (w\<lparr>tasks := (tasks w)(task_name \<mapsto> (task_action w, local))\<rparr>)
                          | Some ex \<Rightarrow> schedule_task_except (the utc_time_str) ex w))))"

text \<open>The body of the \<open>try\<close> of \<open>update_schedule_time\<close> (lines 200 to 206): the exception it
  raises, if any.\<close>

definition update_schedule_time_try :: "string \<Rightarrow> world \<Rightarrow> py_exception option \<times> world" where
  "update_schedule_time_try time_str w =
     (case strptime_HM time_str of
        Inl ex \<Rightarrow> (Some ex, w)
      | Inr _ \<Rightarrow>
          (case set_config_value ''Scheduler'' ''TIME_UTC'' time_str w of
             (Inl ex, w) \<Rightarrow> (Some ex, w)
           | (Inr saved, w) \<Rightarrow>
               if saved
               then schedule_task False
                      (py_print (Print ''Applying new schedule now...'')
                         (py_print (PrintF (NL @ ''SUCCESS: Schedule time updated to {time_str} UTC.'')
                                      [time_str]) w))
               else (None, py_print (Print (NL @ ''ERROR: Failed to save the new time.'')) w)))"

text \<open>\<open>update_schedule_time\<close>. The configuration is read and the first \<open>input\<close> is called
  outside the \<open>try\<close>; its only handler is for \<open>ValueError\<close>.\<close>

definition update_schedule_time :: "world \<Rightarrow> py_exception option \<times> world" where
  "update_schedule_time w =
     (case get_config_value ''Scheduler'' ''TIME_UTC'' (Some DEFAULT_SCHEDULE_TIME_UTC) w of
        (Inl ex, w) \<Rightarrow> (Some ex, w)
      | (Inr current_time, w) \<Rightarrow>
          (case py_input ''Enter the new time to run daily (24-hour UTC format, e.g., 13:30): ''
                  (py_print (PrintF (NL @ ''The current scheduled time is {current_time} UTC.'')
                               [case current_time of None \<Rightarrow> ''None'' | Some t \<Rightarrow> t]) w) of
             (Inl ex, w) \<Rightarrow> (Some ex, w)
           | (Inr line, w) \<Rightarrow>
               (case update_schedule_time_try (strip line) w of
                  (None, w) \<Rightarrow> pause True w
                | (Some ex, w) \<Rightarrow>
                    if is_ValueError ex
                    then pause True
                           (py_print (Print (NL @ ''Invalid format or time. Please use HH:MM format (e.g., 09:25 or 14:00).'')) w)
                    else (Some ex, w))))"

subsection \<open>The other settings\<close>

definition toggle_gui :: "world \<Rightarrow> py_exception option \<times> world" where
  "toggle_gui w =
     (case get_config_value ''Settings'' ''SHOW_GUI'' (Some ''true'') w of
        (Inl ex, w) \<Rightarrow> (Some ex, w)
      | (Inr None, w) \<Rightarrow> (Some AttributeError, w)
      | (Inr (Some current_setting_str), w) \<Rightarrow>
          let is_enabled = (lower current_setting_str = ''true'');
              new_setting = (if is_enabled then ''false'' else ''true'')
          in case set_config_value ''Settings'' ''SHOW_GUI'' new_setting w of
               (Inl ex, w) \<Rightarrow> (Some ex, w)
             | (Inr True, w) \<Rightarrow>
                 pause True
                   (py_print (PrintF (NL @ ''SUCCESS: GUI pop-up has been {status}.'')
                                [if is_enabled then ''DISABLED'' else ''ENABLED'']) w)
             | (Inr False, w) \<Rightarrow>
                 pause True (py_print (Print (NL @ ''ERROR: Failed to update the GUI setting.'')) w))"

definition update_api_key :: "world \<Rightarrow> py_exception option \<times> world" where
  "update_api_key w =
     (case py_input ''Please enter your new Google GenAI API key: '' w of
        (Inl ex, w) \<Rightarrow> (Some ex, w)
      | (Inr line, w) \<Rightarrow>
          let new_key = strip line
          in if new_key = []
             then pause True (py_print (Print (NL @ ''API key cannot be empty. No changes made.'')) w)
             else (case set_config_value ''API'' ''KEY'' new_key w of
                     (Inl ex, w) \<Rightarrow> (Some ex, w)
                   | (Inr True, w) \<Rightarrow>
                       pause True (py_print (Print (NL @ ''SUCCESS: API key has been updated successfully!'')) w)
                   | (Inr False, w) \<Rightarrow>
                       pause True (py_print (Print (NL @ ''ERROR: Failed to update API key.'')) w)))"

definition update_model :: "world \<Rightarrow> py_exception option \<times> world" where
  "update_model w =
     (case get_config_value ''API'' ''MODEL'' (Some DEFAULT_MODEL) w of
        (Inl ex, w) \<Rightarrow> (Some ex, w)
      | (Inr current_model, w) \<Rightarrow>
          (case py_input ''Enter the new model name (e.g., gemini-2.5-pro): ''
                  (py_print (PrintF (NL @ ''The current GenAI model is: {current_model}'')
                               [case current_model of None \<Rightarrow> ''None'' | Some m \<Rightarrow> m]) w) of
             (Inl ex, w) \<Rightarrow> (Some ex, w)
           | (Inr line, w) \<Rightarrow>
               let new_model = strip line
               in if new_model = []
                  then pause True (py_print (Print (NL @ ''Model name cannot be empty. No changes made.'')) w)
                  else (case set_config_value ''API'' ''MODEL'' new_model w of
                          (Inl ex, w) \<Rightarrow> (Some ex, w)
                        | (Inr True, w) \<Rightarrow>
                            pause True (py_print (Print (NL @ ''SUCCESS: GenAI model has been updated successfully!'')) w)
                        | (Inr False, w) \<Rightarrow>
                            pause True (py_print (Print (NL @ ''ERROR: Failed to update the model name.'')) w))))"

definition print_all :: "string list \<Rightarrow> world \<Rightarrow> world" where
  "print_all ls w = foldl (\<lambda>w l. py_print (Print l) w) w ls"

text \<open>\<open>edit_prompt\<close> from line 118 on, with the prompt read at line 116: everything inside
  the \<open>try\<close>, the \<open>input\<close> included, is under \<open>except Exception\<close>; the closing \<open>input\<close> is
  not.\<close>

definition edit_prompt_body :: "string option \<Rightarrow> world \<Rightarrow> py_exception option \<times> world" where
  "edit_prompt_body current_prompt w =
     (let failed = (\<lambda>ex w. py_print (PrintExc (NL @ ''An error occurred while trying to edit the prompt: {e}'') ex) w);
          rule = replicate 40 CHR ''-''
      in case current_prompt of
           None \<Rightarrow> pause True (failed TypeError w)
         | Some cur \<Rightarrow>
             let w = print_all [NL @ '' Here is the current prompt:'' @ NL, rule, cur, rule,
                                NL @ ''Opening prompt in your default text editor...'',
                                NL @ ''Use {today_date} in your prompt to insert today's date automatically.'',
                                ''Please save your changes and close the editor to continue.''] w
             in case editor w cur of
                  Inl ex \<Rightarrow> pause True (failed ex w)
                | Inr edited \<Rightarrow>
                    (case py_input (NL @ ''Press Enter here after you have saved and closed the text editor...'') w of
                       (Inl ex, w) \<Rightarrow> pause True (failed ex w)
                     | (Inr _, w) \<Rightarrow>
                         let new_prompt = strip edited
                         in if new_prompt = []
                            then pause True (py_print (Print (NL @ ''Prompt is empty. No changes made.'')) w)
                            else if new_prompt = cur
                            then pause True (py_print (Print (NL @ ''No changes detected in the prompt.'')) w)
                            else (case set_config_value ''Prompt'' ''TEMPLATE'' new_prompt w of
                                    (Inl ex, w) \<Rightarrow> pause True (failed ex w)
                                  | (Inr True, w) \<Rightarrow>
                                      pause True
                                        (print_all [NL @ ''SUCCESS: Prompt template has been updated successfully!'',
                                                    ''Here is the new prompt:'' @ NL, rule, new_prompt, rule] w)
                                  | (Inr False, w) \<Rightarrow>
                                      pause True
                                        (py_print (Print (NL @ ''ERROR: Failed to update the prompt in the configuration file.'')) w))))"

text \<open>\<open>edit_prompt\<close>: the configuration is read before the \<open>try\<close>.\<close>

definition edit_prompt :: "world \<Rightarrow> py_exception option \<times> world" where
  "edit_prompt w =
     (case get_config_value ''Prompt'' ''TEMPLATE'' (Some DEFAULT_PROMPT_TEMPLATE) w of
        (Inl ex, w) \<Rightarrow> (Some ex, w)
      | (Inr current_prompt, w) \<Rightarrow> edit_prompt_body current_prompt w)"

definition show_cookie_easter_egg :: "world \<Rightarrow> py_exception option \<times> world" where
  "show_cookie_easter_egg w =
     (case easter_egg_error w of
        None \<Rightarrow> (None, w\<lparr>windows := windows w @ [(''Scaled Image'', ''dog.jpg'')]\<rparr>)
      | Some ex \<Rightarrow>
          (case py_input ''Press Enter to continue...''
                  (if ex = FileNotFoundError
                   then py_print (Print (NL @ ''Oops! The easter egg image ('dog.jpg') was not found.'')) w
                   else py_print (PrintExc (NL @ ''An error occurred with the easter egg: {e}'') ex) w) of
             (Inl ex', w) \<Rightarrow> (Some ex', w)
           | (Inr _, w) \<Rightarrow> (None, w)))"

subsection \<open>The retried call\<close>

text \<open>
  \<open>@retry(stop=stop_after_attempt(5), wait=wait_exponential(multiplier=1, min=4, max=10))\<close>
  from \<open>tenacity\<close>, with its defaults otherwise: every \<open>Exception\<close> is retried, and when the
  stop condition holds the last failure is raised inside a \<open>RetryError\<close>. The attempt number
  starts at 1.
\<close>

definition stop_after_attempt :: "nat \<Rightarrow> nat \<Rightarrow> bool" where
  "stop_after_attempt max_attempt_number attempt_number \<longleftrightarrow> attempt_number \<ge> max_attempt_number"

definition wait_exponential :: "int \<Rightarrow> int \<Rightarrow> int \<Rightarrow> nat \<Rightarrow> int" where
  "wait_exponential multiplier mn mx attempt_number =
     max (max 0 mn) (min (multiplier * 2 ^ (attempt_number - 1)) mx)"

function retrying :: "nat \<Rightarrow> (nat \<Rightarrow> int) \<Rightarrow> request \<Rightarrow> nat \<Rightarrow> world \<Rightarrow> (py_exception + response) \<times> world" where
  "retrying max_attempts wait req attempt_number w =
     (let outcome = backend w (backend_calls w) req;
          w = w\<lparr>backend_calls := Suc (backend_calls w)\<rparr>
      in case outcome of
           Inr r \<Rightarrow> (Inr r, w)
         | Inl ex \<Rightarrow>
             if stop_after_attempt max_attempts attempt_number then (Inl (RetryError ex), w)
             else retrying max_attempts wait req (Suc attempt_number)
                    (w\<lparr>sleeps := sleeps w @ [wait attempt_number]\<rparr>))"
  by pat_completeness auto
termination
  by (relation "measure (\<lambda>(m, wt, rq, a, w). m - a)") (auto simp: stop_after_attempt_def)

definition call_gemini_api :: "request \<Rightarrow> world \<Rightarrow> (py_exception + response) \<times> world" where
  "call_gemini_api req w = retrying 5 (wait_exponential 1 4 10) req 1 w"

subsection \<open>Rendering the prompt\<close>

text \<open>
  \<open>prompt_template.format(today_date=today_date)\<close>, after CPython's \<open>MarkupIterator_next\<close>
  and \<open>parse_field\<close>. Literal text runs to the next brace; a doubled brace is one literal
  brace; a single closing brace, or an opening brace at the very end, is \<open>ValueError\<close>;
  any other opening brace starts a replacement field.

  The field name runs to the first \<open>}\<close>, \<open>:\<close> or \<open>!\<close> outside square brackets; an opening
  brace in it is \<open>ValueError\<close>, and so is the end of the string.
\<close>

fun scan_field_name :: "bool \<Rightarrow> string \<Rightarrow> string \<Rightarrow> py_exception + string \<times> char \<times> string" where
  "scan_field_name in_brackets [] acc = Inl ValueError"
| "scan_field_name True (c # cs) acc =
     (if c = CHR '']'' then scan_field_name False cs (c # acc)
      else scan_field_name True cs (c # acc))"
| "scan_field_name False (c # cs) acc =
     (if c = CHR ''{'' then Inl ValueError
      else if c = CHR ''['' then scan_field_name True cs (c # acc)
      else if c = CHR ''}'' \<or> c = CHR '':'' \<or> c = CHR ''!'' then Inr (rev acc, c, cs)
      else scan_field_name False cs (c # acc))"

text \<open>The format specification runs to the closing brace that matches the field's
  opening one; \<open>count\<close> is the number of braces open.\<close>

fun scan_format_spec :: "nat \<Rightarrow> string \<Rightarrow> string \<Rightarrow> py_exception + string \<times> string" where
  "scan_format_spec count [] acc = Inl ValueError"
| "scan_format_spec count (c # cs) acc =
     (if c = CHR ''{'' then scan_format_spec (Suc count) cs (c # acc)
      else if c = CHR ''}''
      then (if count = 1 then Inr (rev acc, cs) else scan_format_spec (count - 1) cs (c # acc))
      else scan_format_spec count cs (c # acc))"

text \<open>\<open>parse_field\<close> on the text after the opening brace: the field and the text after it.\<close>

definition parse_field :: "string \<Rightarrow> py_exception + field \<times> string" where
  "parse_field s =
     (case scan_field_name False s [] of
        Inl ex \<Rightarrow> Inl ex
      | Inr (name, c, rest) \<Rightarrow>
          if c = CHR ''}'' then Inr (Field name None [], rest)
          else if c = CHR ''!'' then
            (case rest of
               [] \<Rightarrow> Inl ValueError
             | conv # rest1 \<Rightarrow>
                 (case rest1 of
                    [] \<Rightarrow> Inl ValueError
                  | d # rest2 \<Rightarrow>
                      if d = CHR ''}'' then Inr (Field name (Some conv) [], rest2)
                      else if d \<noteq> CHR '':'' then Inl ValueError
                      else (case scan_format_spec 1 rest2 [] of
                              Inl ex \<Rightarrow> Inl ex
                            | Inr (spec, rest3) \<Rightarrow> Inr (Field name (Some conv) spec, rest3))))
          else (case scan_format_spec 1 rest [] of
                  Inl ex \<Rightarrow> Inl ex
                | Inr (spec, rest3) \<Rightarrow> Inr (Field name None spec, rest3)))"

text \<open>The value of one field when \<open>today_date\<close> is the only argument: the first part of
  the name, up to a dot or an opening bracket, is looked up; a name that is neither empty
  nor a number and is not \<open>today_date\<close> is \<open>KeyError\<close>.\<close>

definition render_field :: "(field \<Rightarrow> string \<Rightarrow> py_exception + string) \<Rightarrow> field \<Rightarrow> string \<Rightarrow> py_exception + string" where
  "render_field other f today_date =
     (let first = takeWhile (\<lambda>c. c \<noteq> CHR ''.'' \<and> c \<noteq> CHR ''['') (field_name f)
      in if f = Field ''today_date'' None [] then Inr today_date
         else if first \<noteq> ''today_date'' \<and> first \<noteq> [] \<and> \<not> (\<forall>c \<in> set first. is_digit c)
         then Inl KeyError
         else other f today_date)"

definition is_brace :: "char \<Rightarrow> bool" where
  "is_brace c \<longleftrightarrow> c = CHR ''{'' \<or> c = CHR ''}''"

lemma scan_field_name_length:
  "scan_field_name b s acc = Inr (name, c, rest) \<Longrightarrow> length rest < length s"
  by (induction b s acc rule: scan_field_name.induct) (auto split: if_splits)

lemma scan_format_spec_length:
  "scan_format_spec n s acc = Inr (spec, rest) \<Longrightarrow> length rest < length s"
  by (induction n s acc rule: scan_format_spec.induct) (auto split: if_splits)

lemma parse_field_length:
  "parse_field s = Inr (f, rest) \<Longrightarrow> length rest < length s"
  unfolding parse_field_def
  by (auto split: sum.splits if_splits list.splits prod.splits
           dest!: scan_field_name_length scan_format_spec_length)

function py_format :: "(field \<Rightarrow> string \<Rightarrow> py_exception + string) \<Rightarrow> string \<Rightarrow> string \<Rightarrow> py_exception + string" where
  "py_format other s today_date =
     (let literal = takeWhile (\<lambda>c. \<not> is_brace c) s
      in case dropWhile (\<lambda>c. \<not> is_brace c) s of
           [] \<Rightarrow> Inr literal
         | c # r \<Rightarrow>
             if c = CHR ''}'' \<and> (r = [] \<or> hd r \<noteq> c) then Inl ValueError
             else if c = CHR ''{'' \<and> r = [] then Inl ValueError
             else if hd r = c
             then (case py_format other (tl r) today_date of
                     Inl ex \<Rightarrow> Inl ex
                   | Inr out \<Rightarrow> Inr (literal @ [c] @ out))
             else (case parse_field r of
                     Inl ex \<Rightarrow> Inl ex
                   | Inr (f, rest) \<Rightarrow>
                       (case render_field other f today_date of
                          Inl ex \<Rightarrow> Inl ex
                        | Inr v \<Rightarrow>
                            (case py_format other rest today_date of
                               Inl ex \<Rightarrow> Inl ex
                             | Inr out \<Rightarrow> Inr (literal @ v @ out)))))"
  by pat_completeness auto
termination
proof (relation "measure (\<lambda>(other, s, d). length s)")
  show "wf (measure (\<lambda>(other, s, d). length s))"
    by simp
next
  fix other :: "field \<Rightarrow> string \<Rightarrow> py_exception + string"
  fix s today_date :: string and c :: char and r :: string
  assume "dropWhile (\<lambda>c. \<not> is_brace c) s = c # r"
  then have "length (c # r) \<le> length s"
    by (metis length_dropWhile_le)
  then show "((other, tl r, today_date), (other, s, today_date)) \<in> measure (\<lambda>(other, s, d). length s)"
    by (cases r) auto
next
  fix other :: "field \<Rightarrow> string \<Rightarrow> py_exception + string"
  fix s today_date :: string and c :: char and r rest :: string and f :: field and x :: "field \<times> string"
  assume d: "dropWhile (\<lambda>c. \<not> is_brace c) s = c # r"
    and p: "parse_field r = Inr x" and x: "(f, rest) = x"
  from d have "length (c # r) \<le> length s"
    by (metis length_dropWhile_le)
  moreover from p x have "length rest < length r"
    by (metis parse_field_length)
  ultimately show "((other, rest, today_date), (other, s, today_date)) \<in> measure (\<lambda>(other, s, d). length s)"
    by simp
qed

subsection \<open>Generating the report\<close>

text \<open>\<open>_display_report_gui\<close>: the window, or the diagnostics of the two handlers; no
  exception leaves it.\<close>

definition display_report_gui :: "string \<Rightarrow> string \<Rightarrow> world \<Rightarrow> world" where
  "display_report_gui report_text date_str w =
     (let w = py_print (Print ''Displaying report in GUI window...'') w
      in case display_error w of
           None \<Rightarrow> w\<lparr>windows := windows w @ [(''Meme Stock Report - '' @ date_str, report_text)]\<rparr>
         | Some TclError \<Rightarrow>
             py_print (PrintExc ''Details: {e}'' TclError)
               (py_print (Print (NL @ ''ERROR: Could not display GUI. Your environment may not support Tkinter.'')) w)
         | Some ex \<Rightarrow> py_print (PrintExc (NL @ ''An unexpected error occurred with the GUI: {e}'') ex) w)"

definition report_file :: "string \<Rightarrow> string" where
  "report_file today_date = today_date @ ''_MemeStock.txt''"

text \<open>Lines 322 to 333 of \<open>get_meme_stocks\<close>: the report is written and shown. The
  result is the exception raised, or \<open>output_text\<close>. \<open>open(path, "w")\<close> empties the file
  before anything is written; writing \<open>None\<close> is \<open>TypeError\<close>.\<close>

definition save_report :: "response \<Rightarrow> string \<Rightarrow> world \<Rightarrow> (py_exception + string) \<times> world" where
  "save_report response today_date w =
     (if \<not> writable w (report_file today_date) then (Inl OSError, w)
      else
        (case response_text response of
           None \<Rightarrow> (Inl TypeError, w\<lparr>files := (files w)(report_file today_date \<mapsto> []),
                                     undecodable := (undecodable w)(report_file today_date := False)\<rparr>)
         | Some output_text \<Rightarrow>
             (case get_config_value ''Settings'' ''SHOW_GUI'' (Some ''true'')
                     (py_print (PrintF (''SUCCESS: Report saved to '{output_file_path}'' @ [CHR 0x27])
                                  [report_file today_date])
                        (w\<lparr>files := (files w)(report_file today_date \<mapsto> output_text),
                           undecodable := (undecodable w)(report_file today_date := False)\<rparr>)) of
                (Inl ex, w) \<Rightarrow> (Inl ex, w)
              | (Inr None, w) \<Rightarrow> (Inl AttributeError, w)
              | (Inr (Some g), w) \<Rightarrow>
                  if lower g = ''true''
                  then (Inr output_text, display_report_gui output_text today_date w)
                  else (Inr output_text,
                        py_print (Print ''GUI pop-up is disabled in settings. The report is in the text file.'') w))))"

text \<open>The body of the \<open>try\<close> of \<open>get_meme_stocks\<close> (lines 307 to 333): the exception it
  raises, or \<open>output_text\<close>. Building the client and the request configuration calls
  nothing outside the process.\<close>

definition get_meme_stocks_try :: "string \<Rightarrow> world \<Rightarrow> (py_exception + string) \<times> world" where
  "get_meme_stocks_try api_key w =
     (case get_config_value ''Prompt'' ''TEMPLATE'' (Some DEFAULT_PROMPT_TEMPLATE) w of
        (Inl ex, w) \<Rightarrow> (Inl ex, w)
      | (Inr prompt_template, w) \<Rightarrow>
          (case get_config_value ''API'' ''MODEL'' (Some DEFAULT_MODEL) w of
             (Inl ex, w) \<Rightarrow> (Inl ex, w)
           | (Inr gemini_model, w) \<Rightarrow>
               let today_date = today w
               in case prompt_template of
                    None \<Rightarrow> (Inl AttributeError, w)
                  | Some template \<Rightarrow>
                      (case py_format (format_other w) template today_date of
                         Inl ex \<Rightarrow> (Inl ex, w)
                       | Inr prompt \<Rightarrow>
                           let model = (case gemini_model of None \<Rightarrow> ''None'' | Some m \<Rightarrow> m);
                               w = py_print (PrintF (NL @ ''Generating meme stock report for {today_date} using model '{gemini_model}'...'')
                                               [today_date, model]) w
                           in case call_gemini_api (api_key, model, prompt) w of
                                (Inl ex, w) \<Rightarrow> (Inl ex, w)
                              | (Inr response, w) \<Rightarrow> save_report response today_date w)))"

definition API_KEY_SENTINEL :: string where
  "API_KEY_SENTINEL = ''YOUR_API_KEY_HERE''"

definition MSG_API_KEY_NOT_SET :: string where
  "MSG_API_KEY_NOT_SET = NL @ ''ERROR: API key not set. Please go to Settings to add your key.''"

text \<open>The handlers of \<open>get_meme_stocks\<close> (lines 335 to 340), reached by an exception of the
  \<open>try\<close> body. The first clause is \<open>except genai.exceptions.APIError\<close>: the expression is
  evaluated when the exception arrives, and where \<open>google.genai\<close> has no attribute
  \<open>exceptions\<close> that raises \<open>AttributeError\<close>, which none of the clauses after it handles and
  which leaves the function. The result is the exception that leaves the function, if
  any.\<close>

definition get_meme_stocks_except :: "py_exception \<Rightarrow> world \<Rightarrow> py_exception option \<times> world" where
  "get_meme_stocks_except ex w =
     (if \<not> genai_exceptions w then (Some AttributeError, w)
      else if ex = APIError
      then (None, py_print (PrintExc (NL @ ''ERROR: API call failed. Details: {e}'') ex) w)
      else if ex = KeyError
      then (None, py_print (PrintExc (NL @ ''ERROR: Missing key in configuration. Details: {e}'') ex) w)
      else (None, py_print (PrintExc ''An unexpected error occurred: {e}'' ex) w))"

text \<open>\<open>get_meme_stocks\<close>. The key is read outside the \<open>try\<close>. The result is the exception that
  leaves the function, if any.\<close>

definition get_meme_stocks :: "world \<Rightarrow> py_exception option \<times> world" where
  "get_meme_stocks w =
     (if \<not> genai_importable w
      then (None, py_print (Print (NL @ ''ERROR: 'google-generativeai' not installed. Run: pip install google-generativeai'')) w)
      else
        (case get_config_value ''API'' ''KEY'' None w of
           (Inl ex, w) \<Rightarrow> (Some ex, w)
         | (Inr api_key, w) \<Rightarrow>
             if api_key = None \<or> api_key = Some [] \<or> api_key = Some API_KEY_SENTINEL
             then pause (\<not> run_marker w) (py_print (Print MSG_API_KEY_NOT_SET) w)
             else
               (case get_meme_stocks_try (the api_key) w of
                  (Inr _, w) \<Rightarrow> (None, w)
                | (Inl ex, w) \<Rightarrow> get_meme_stocks_except ex w)))"

subsection \<open>The menus and the entry point\<close>

text \<open>
  The two menus loop until the user leaves them; an exception of an action, the
  \<open>EOFError\<close> of \<open>input\<close> at the end of the input among them, leaves the loop. A loop that
  does not return has the value \<open>None\<close>.
\<close>

partial_function (option) settings_menu :: "world \<Rightarrow> (py_exception option \<times> world) option" where
  "settings_menu w =
     (case py_input ''Please enter your choice (1-6): ''
             (print_all [NL @ replicate 46 CHR ''='', ''                 Settings Menu'',
                         replicate 46 CHR ''='' @ NL,
                         ''  1) Set/Update Schedule Time (UTC)'', ''  2) Update API Key'',
                         ''  3) Update GenAI Model'', ''  4) View/Edit API Prompt'',
                         ''  5) Toggle GUI Pop-up'', ''  6) Back to Main Menu'' @ NL] w) of
        (Inl ex, w) \<Rightarrow> Some (Some ex, w)
      | (Inr line, w) \<Rightarrow>
          let choice = strip line
          in if choice = ''1''
             then (case update_schedule_time w of
                     (Some ex, w) \<Rightarrow> Some (Some ex, w) | (None, w) \<Rightarrow> settings_menu w)
             else if choice = ''2''
             then (case update_api_key w of
                     (Some ex, w) \<Rightarrow> Some (Some ex, w) | (None, w) \<Rightarrow> settings_menu w)
             else if choice = ''3''
             then (case update_model w of
                     (Some ex, w) \<Rightarrow> Some (Some ex, w) | (None, w) \<Rightarrow> settings_menu w)
             else if choice = ''4''
             then (case edit_prompt w of
                     (Some ex, w) \<Rightarrow> Some (Some ex, w) | (None, w) \<Rightarrow> settings_menu w)
             else if choice = ''5''
             then (case toggle_gui w of
                     (Some ex, w) \<Rightarrow> Some (Some ex, w) | (None, w) \<Rightarrow> settings_menu w)
             else if choice = ''6'' then Some (None, w)
             else settings_menu (py_print (Print ''Invalid selection. Please try again.'') w))"

partial_function (option) main_menu :: "world \<Rightarrow> (py_exception option \<times> world) option" where
  "main_menu w =
     (case py_input ''Please enter your choice (1-4): ''
             (print_all [NL @ replicate 46 CHR ''='', ''      Meme Stock Tracker Management      '',
                         replicate 46 CHR ''='' @ NL,
                         ''  1) Schedule Daily Task'', ''  2) Run Script Now'',
                         ''  3) Settings'', ''  4) Exit'' @ NL] w) of
        (Inl ex, w) \<Rightarrow> Some (Some ex, w)
      | (Inr line, w) \<Rightarrow>
          let choice = strip line
          in if choice = ''1''
             then (case schedule_task True w of
                     (Some ex, w) \<Rightarrow> Some (Some ex, w) | (None, w) \<Rightarrow> main_menu w)
             else if choice = ''2''
             then (case get_meme_stocks w of
                     (Some ex, w) \<Rightarrow> Some (Some ex, w) | (None, w) \<Rightarrow> main_menu w)
             else if choice = ''3''
             then (case settings_menu w of
                     None \<Rightarrow> None
                   | Some (Some ex, w) \<Rightarrow> Some (Some ex, w)
                   | Some (None, w) \<Rightarrow> main_menu w)
             else if choice = ''4'' then Some (None, py_print (Print ''Exiting.'') w)
             else if lower choice = ''cookie''
             then (case show_cookie_easter_egg w of
                     (Some ex, w) \<Rightarrow> Some (Some ex, w) | (None, w) \<Rightarrow> main_menu w)
             else main_menu (py_print (Print ''Invalid selection. Please try again.'') w))"

text \<open>The imports at the top of the script (lines 1 to 23): the exit status, if the process
  ends there. An \<open>ImportError\<close> of \<open>tkinter\<close> or \<open>tenacity\<close> is not handled; without \<open>Pillow\<close>
  the script prints a line and calls \<open>sys.exit(1)\<close>; without \<open>zoneinfo\<close> it prints two lines
  and goes on.\<close>

definition module_imports :: "world \<Rightarrow> nat option \<times> world" where
  "module_imports w =
     (if \<not> tkinter_importable w \<or> \<not> tenacity_importable w then (Some 1, w)
      else if \<not> pillow_importable w
      then (Some 1, py_print (Print ''ERROR: 'Pillow' library not found. Please run: pip install Pillow'') w)
      else if \<not> zoneinfo_importable w
      then (None, py_print (Print ''If you are on Python < 3.9, run: pip install tzdata'')
                    (py_print (Print ''Warning: 'zoneinfo' library not found. Timezone features may fail.'') w))
      else (None, w))"

text \<open>The block under \<open>if __name__ == "__main__"\<close> (lines 463 to 475): the exit status of the
  process and the world it leaves. \<open>sys.exit(0)\<close> and the end of the script are status 0, an
  exception that nothing handles is status 1.\<close>

definition main_block :: "world \<Rightarrow> (nat \<times> world) option" where
  "main_block w =
     (if run_marker w
      then (case get_meme_stocks (py_print (PrintF ''Automated run initiated at {...}'' [now w]) w) of
              (Some ex, w) \<Rightarrow> Some (1, w)
            | (None, w) \<Rightarrow> Some (0, py_print (Print ''Automated run complete.'') w))
      else (case main_menu w of
              None \<Rightarrow> None
            | Some (Some ex, w) \<Rightarrow> Some (1, w)
            | Some (None, w) \<Rightarrow> Some (0, w)))"

text \<open>A run of the script: the imports, then the block.\<close>

definition main :: "world \<Rightarrow> (nat \<times> world) option" where
  "main w =
     (case module_imports w of
        (Some status, w) \<Rightarrow> Some (status, w)
      | (None, w) \<Rightarrow> main_block w)"

text \<open>What a run of \<open>get_meme_stocks\<close> started in a world writes to the day file when it
  gets that far: \<open>output_text\<close> if the key is configured and the \<open>try\<close> body completes, else
  nothing.\<close>

definition report_text_of_run :: "world \<Rightarrow> string option" where
  "report_text_of_run w =
     (if \<not> genai_importable w then None
      else (case get_config_value ''API'' ''KEY'' None w of
              (Inl ex, w) \<Rightarrow> None
            | (Inr api_key, w) \<Rightarrow>
                if api_key = None \<or> api_key = Some [] \<or> api_key = Some API_KEY_SENTINEL then None
                else (case fst (get_meme_stocks_try (the api_key) w) of
                        Inl ex \<Rightarrow> None
                      | Inr output_text \<Rightarrow> Some output_text)))"

subsection \<open>Example worlds\<close>

text \<open>A world for the concrete instances: no files, a service that fails four times and
  then answers.\<close>

definition example_world :: world where
  "example_world =
     \<lparr> files = Map.empty, undecodable = (\<lambda>_. False), writable = (\<lambda>_. True), stdin = [],
       stdout = [], argv = [''meme_stock_tracker.py''], today = ''2025-01-02'',
       now = ''2025-01-02 09:25:00'', tkinter_importable = True, tenacity_importable = True,
       pillow_importable = True, zoneinfo_importable = True, genai_importable = True,
       genai_exceptions = False,
       backend = (\<lambda>n req. if n < 4 then Inl APIError else Inr (Response (Some ''report''))),
       backend_calls = 0, sleeps = [], display_error = None, windows = [],
       platform_win32 = False, frozen = False, executable = ''python'',
       script_path = ''meme_stock_tracker.py'', utc_offset_minutes = 0, schtasks_error = None,
       tasks = Map.empty, editor = (\<lambda>s. Inr s),
       format_other = (\<lambda>f d. Inl ValueError), easter_egg_error = None \<rparr>"

text \<open>Two more worlds: one started as \<open>meme_stock_tracker.py run --verbose\<close> with a line
  waiting on the standard input, and one with a configured key and a service that answers
  \<open>first\<close>, then \<open>second\<close>.\<close>

definition example_world_run :: world where
  "example_world_run =
     example_world\<lparr>argv := [''meme_stock_tracker.py'', ''run'', ''--verbose''], stdin := [''4'']\<rparr>"

definition example_world_key :: world where
  "example_world_key =
     example_world\<lparr>files := [config_ini \<mapsto> ''[API]'' @ NL @ ''key = k-123'' @ NL],
                   backend := (\<lambda>n req. Inr (Response (Some (if n = 0 then ''first'' else ''second''))))\<rparr>"

text \<open>A world started as \<open>meme_stock_tracker.py run\<close> with a configured key and a service
  that fails at every call.\<close>

definition example_world_fail :: world where
  "example_world_fail =
     example_world_key\<lparr>argv := [''meme_stock_tracker.py'', ''run''],
                       backend := (\<lambda>n req. Inl APIError)\<rparr>"

subsection \<open>Stores that the file format holds\<close>

text \<open>
  \<open>config.write\<close> writes names, keys and values as they are, and \<open>config.read\<close> strips and
  splits what it finds. The predicates below say which stores come back as they were
  written: they are what the parser returns (\<open>wf_config\<close> holds of every store read from a
  file), and what \<open>config.set\<close> keeps when its arguments satisfy them.
\<close>

definition stripped :: "string \<Rightarrow> bool" where
  "stripped s \<longleftrightarrow> strip s = s"

definition no_line_break :: "string \<Rightarrow> bool" where
  "no_line_break s \<longleftrightarrow> CHR 0x0A \<notin> set s \<and> CHR 0x0D \<notin> set s"

definition comment_start :: "string \<Rightarrow> bool" where
  "comment_start s \<longleftrightarrow> startswith s ''#'' \<or> startswith s '';''"

text \<open>The lines of a value: the first stands after the key, the others are continuation
  lines.\<close>

definition value_lines :: "string \<Rightarrow> string list" where
  "value_lines v = split_on CHR 0x0A v"

text \<open>A section name: not empty, on one line, and not \<open>DEFAULT\<close>.\<close>

definition wf_section_name :: "string \<Rightarrow> bool" where
  "wf_section_name n \<longleftrightarrow> n \<noteq> [] \<and> no_line_break n \<and> n \<noteq> DEFAULTSECT"

text \<open>A key: not empty, without white space at either end, on one line, without a
  delimiter, not the start of a comment, and in lower case.\<close>

definition wf_key :: "string \<Rightarrow> bool" where
  "wf_key k \<longleftrightarrow> k \<noteq> [] \<and> stripped k \<and> no_line_break k \<and> (\<forall>c \<in> set k. \<not> is_delim c) \<and>
                \<not> comment_start k \<and> lower k = k"

text \<open>A value: every line without white space at either end and without a carriage
  return, no continuation line the start of a comment, and no white space at the end.\<close>

definition wf_value :: "string \<Rightarrow> bool" where
  "wf_value v \<longleftrightarrow> (\<forall>l \<in> set (value_lines v). stripped l \<and> CHR 0x0D \<notin> set l) \<and>
                  (\<forall>l \<in> set (tl (value_lines v)). \<not> comment_start l) \<and> rstrip v = v"

text \<open>The line that \<open>config.write\<close> writes for a key and the first line of its value.\<close>

definition entry_line :: "string \<Rightarrow> string \<Rightarrow> string" where
  "entry_line k v = k @ '' = '' @ hd (value_lines v)"

text \<open>An entry: a key and a value whose line does not read as a section header.\<close>

definition wf_entry :: "string \<Rightarrow> string \<Rightarrow> bool" where
  "wf_entry k v \<longleftrightarrow> wf_key k \<and> wf_value v \<and> sect_match (strip (entry_line k v)) = None"

definition wf_dict :: "string pydict \<Rightarrow> bool" where
  "wf_dict d \<longleftrightarrow> distinct (map fst d) \<and> (\<forall>(k, v) \<in> set d. wf_entry k v)"

definition wf_config :: "config \<Rightarrow> bool" where
  "wf_config c \<longleftrightarrow> wf_dict (defaults c) \<and> distinct (map fst (sections c)) \<and>
                   (\<forall>(n, d) \<in> set (sections c). wf_section_name n \<and> wf_dict d)"

text \<open>The same for the parser while it reads: values are lists of lines, and nothing is
  asked once an error has been noted.\<close>

definition wf_raw_entry :: "string \<Rightarrow> string list \<Rightarrow> bool" where
  "wf_raw_entry k ls \<longleftrightarrow> wf_key k \<and> ls \<noteq> [] \<and> (\<forall>l \<in> set ls. stripped l \<and> no_line_break l) \<and>
                        (\<forall>l \<in> set (tl ls). \<not> comment_start l) \<and>
                        sect_match (strip (k @ '' = '' @ hd ls)) = None"

definition wf_raw_dict :: "string list pydict \<Rightarrow> bool" where
  "wf_raw_dict d \<longleftrightarrow> distinct (map fst d) \<and> (\<forall>(k, ls) \<in> set d. wf_raw_entry k ls)"

definition wf_parser :: "parser \<Rightarrow> bool" where
  "wf_parser p \<longleftrightarrow> (\<not> e p \<longrightarrow> wf_raw_dict (p_defaults p) \<and> distinct (map fst (p_sections p)) \<and>
                          (\<forall>(n, d) \<in> set (p_sections p). wf_section_name n \<and> wf_raw_dict d))"

text \<open>While the parser reads the lines of a section, its current section is a section it
  holds.\<close>

definition cur_ok :: "parser \<Rightarrow> bool" where
  "cur_ok p \<longleftrightarrow> (case sectname p of None \<Rightarrow> False
                  | Some n \<Rightarrow> n = DEFAULTSECT \<or> n \<in> fst ` set (p_sections p))"

text \<open>The lines of the text that \<open>config.write\<close> writes, and what the parser holds after it
  has read them: the lines of every value, with one empty line more for the last value of
  a section.\<close>

definition entry_lines :: "string \<times> string \<Rightarrow> string list" where
  "entry_lines kv = entry_line (fst kv) (snd kv) # map ((#) CHR 0x09) (tl (value_lines (snd kv)))"

definition section_lines :: "string \<Rightarrow> string pydict \<Rightarrow> string list" where
  "section_lines n d = (''['' @ n @ '']'') # concat (map entry_lines d) @ [[]]"

definition config_lines :: "config \<Rightarrow> string list" where
  "config_lines c =
     (if defaults c \<noteq> [] then section_lines DEFAULTSECT (defaults c) else []) @
     concat (map (\<lambda>(n, d). section_lines n d) (sections c))"

definition raw_dict :: "string pydict \<Rightarrow> string list pydict" where
  "raw_dict d = map (\<lambda>kv. (fst kv, value_lines (snd kv))) d"

definition close_dict :: "string list pydict \<Rightarrow> string list pydict" where
  "close_dict rd = (if rd = [] then [] else butlast rd @ [(fst (last rd), snd (last rd) @ [[]])])"

definition last_key :: "'v pydict \<Rightarrow> string option" where
  "last_key d = (if d = [] then None else Some (fst (last d)))"

subsection \<open>Calls and what they leave\<close>

text \<open>What \<open>set_config_value\<close> writes when the file held the store \<open>c\<close> (lines 100 to 102): the
  section is added if it is missing, then the option is set.\<close>

definition store_after :: "config \<Rightarrow> string \<Rightarrow> string \<Rightarrow> string \<Rightarrow> config" where
  "store_after c section key v =
     config_set (if has_section c section then c else c\<lparr>sections := sections c @ [(section, [])]\<rparr>)
       section key v"

text \<open>The effective setting of the pop-up, as \<open>get_meme_stocks\<close> reads it (line 329).\<close>

definition show_gui :: "world \<Rightarrow> bool option" where
  "show_gui w =
     (case fst (get_config_value ''Settings'' ''SHOW_GUI'' (Some ''true'') w) of
        Inr (Some g) \<Rightarrow> Some (lower g = ''true'')
      | _ \<Rightarrow> None)"

text \<open>A call of \<open>toggle_gui\<close> is successful when its \<open>set_config_value\<close> returns \<open>True\<close> (line
  374).\<close>

definition toggle_gui_succeeds :: "world \<Rightarrow> bool" where
  "toggle_gui_succeeds w \<longleftrightarrow>
     (case get_config_value ''Settings'' ''SHOW_GUI'' (Some ''true'') w of
        (Inr (Some current_setting_str), w) \<Rightarrow>
          fst (set_config_value ''Settings'' ''SHOW_GUI''
                 (if lower current_setting_str = ''true'' then ''false'' else ''true'') w) = Inr True
      | _ \<Rightarrow> False)"

text \<open>A sequence of calls of \<open>set_config_value\<close>, whatever each returns.\<close>

fun set_all :: "(string \<times> string \<times> string) list \<Rightarrow> world \<Rightarrow> world" where
  "set_all [] w = w"
| "set_all ((section, key, v) # calls) w = set_all calls (snd (set_config_value section key v w))"

subsection \<open>More example worlds\<close>


section \<open>Properties\<close>

subsection \<open>The retry policy\<close>

declare retrying.simps [simp del]

lemma retrying_success:
  "backend w (backend_calls w) rq = Inr r \<Longrightarrow>
   retrying m wt rq a w = (Inr r, w\<lparr>backend_calls := Suc (backend_calls w)\<rparr>)"
  by (subst retrying.simps) simp

lemma retrying_stop:
  "backend w (backend_calls w) rq = Inl ex \<Longrightarrow> m \<le> a \<Longrightarrow>
   retrying m wt rq a w = (Inl (RetryError ex), w\<lparr>backend_calls := Suc (backend_calls w)\<rparr>)"
  by (subst retrying.simps) (simp add: stop_after_attempt_def)

lemma retrying_again:
  "backend w (backend_calls w) rq = Inl ex \<Longrightarrow> a < m \<Longrightarrow>
   retrying m wt rq a w =
     retrying m wt rq (Suc a) (w\<lparr>backend_calls := Suc (backend_calls w), sleeps := sleeps w @ [wt a]\<rparr>)"
  by (subst retrying.simps) (simp add: stop_after_attempt_def)

lemma retrying_calls:
  "backend_calls w < backend_calls (snd (retrying m wt rq a w)) \<and>
   backend_calls (snd (retrying m wt rq a w)) \<le> backend_calls w + Suc (m - a)"
proof (induction m wt rq a w rule: retrying.induct)
  case (1 m wt rq a w)
  show ?case
  proof (cases "backend w (backend_calls w) rq")
    case (Inr r)
    then show ?thesis by (simp add: retrying_success)
  next
    case (Inl ex)
    show ?thesis
    proof (cases "a < m")
      case False
      with Inl show ?thesis by (simp add: retrying_stop)
    next
      case True
      then have ns: "\<not> stop_after_attempt m a" by (simp add: stop_after_attempt_def)
      from "1.IH"[OF refl refl Inl ns] True Inl show ?thesis
        by (simp add: retrying_again) arith
    qed
  qed
qed

lemma wait_exponential_bounds: "4 \<le> wait_exponential 1 4 10 n \<and> wait_exponential 1 4 10 n \<le> 10"
  by (simp add: wait_exponential_def)

text \<open>
  Claim C2. Whatever the service does, the retried call invokes it at least once and at most
  five times. If the first four invocations fail and the fifth succeeds, the call returns
  that response after exactly five invocations and has asked for four waits, each between
  4 and 10; if the fifth fails too, no sixth invocation is made and the caller receives the
  last failure, wrapped in \<open>RetryError\<close>.
\<close>

theorem retry_policy:
  "backend_calls w < backend_calls (snd (call_gemini_api req w)) \<and>
   backend_calls (snd (call_gemini_api req w)) \<le> backend_calls w + 5 \<and>
   (backend w (backend_calls w) req = Inl e1 \<and> backend w (backend_calls w + 1) req = Inl e2 \<and>
    backend w (backend_calls w + 2) req = Inl e3 \<and> backend w (backend_calls w + 3) req = Inl e4 \<longrightarrow>
      (backend w (backend_calls w + 4) req = Inr r \<longrightarrow>
         fst (call_gemini_api req w) = Inr r \<and>
         backend_calls (snd (call_gemini_api req w)) = backend_calls w + 5 \<and>
         (\<exists>ws. sleeps (snd (call_gemini_api req w)) = sleeps w @ ws \<and> length ws = 4 \<and>
               (\<forall>s \<in> set ws. 4 \<le> s \<and> s \<le> 10))) \<and>
      (backend w (backend_calls w + 4) req = Inl e5 \<longrightarrow>
         fst (call_gemini_api req w) = Inl (RetryError e5) \<and>
         backend_calls (snd (call_gemini_api req w)) = backend_calls w + 5))"
proof (intro conjI impI)
  show "backend_calls w < backend_calls (snd (call_gemini_api req w))"
    using retrying_calls[of w 5 "wait_exponential 1 4 10" req 1] by (simp add: call_gemini_api_def)
  show "backend_calls (snd (call_gemini_api req w)) \<le> backend_calls w + 5"
    using retrying_calls[of w 5 "wait_exponential 1 4 10" req 1] by (simp add: call_gemini_api_def)
next
  assume f: "backend w (backend_calls w) req = Inl e1 \<and> backend w (backend_calls w + 1) req = Inl e2 \<and>
    backend w (backend_calls w + 2) req = Inl e3 \<and> backend w (backend_calls w + 3) req = Inl e4"
  let ?wt = "wait_exponential 1 4 10"
  let ?w4 = "w\<lparr>backend_calls := backend_calls w + 4,
                sleeps := sleeps w @ [?wt 1, ?wt 2, ?wt 3, ?wt 4]\<rparr>"
  have four: "call_gemini_api req w = retrying 5 ?wt req 5 ?w4"
    using f by (simp add: call_gemini_api_def retrying_again eval_nat_numeral)
  {
    assume ok: "backend w (backend_calls w + 4) req = Inr r"
    then have res: "call_gemini_api req w = (Inr r, ?w4\<lparr>backend_calls := backend_calls w + 5\<rparr>)"
      by (simp add: four retrying_success)
    show "fst (call_gemini_api req w) = Inr r" by (simp add: res)
    show "backend_calls (snd (call_gemini_api req w)) = backend_calls w + 5" by (simp add: res)
    have "sleeps (snd (call_gemini_api req w)) = sleeps w @ [?wt 1, ?wt 2, ?wt 3, ?wt 4]"
      by (simp add: res)
    moreover have "\<forall>s \<in> set [?wt 1, ?wt 2, ?wt 3, ?wt 4]. 4 \<le> s \<and> s \<le> 10"
      using wait_exponential_bounds by simp
    ultimately show "\<exists>ws. sleeps (snd (call_gemini_api req w)) = sleeps w @ ws \<and> length ws = 4 \<and>
               (\<forall>s \<in> set ws. 4 \<le> s \<and> s \<le> 10)"
      by (intro exI[of _ "[?wt 1, ?wt 2, ?wt 3, ?wt 4]"]) simp
  }
  {
    assume bad: "backend w (backend_calls w + 4) req = Inl e5"
    then have res: "call_gemini_api req w = (Inl (RetryError e5), ?w4\<lparr>backend_calls := backend_calls w + 5\<rparr>)"
      by (simp add: four retrying_stop)
    show "fst (call_gemini_api req w) = Inl (RetryError e5)" by (simp add: res)
    show "backend_calls (snd (call_gemini_api req w)) = backend_calls w + 5" by (simp add: res)
  }
qed

theorem retry_policy_witness:
  "fst (call_gemini_api (''key'', ''gemini-2.5-pro'', ''prompt'') example_world) = Inr (Response (Some ''report'')) \<and>
   backend_calls (snd (call_gemini_api (''key'', ''gemini-2.5-pro'', ''prompt'') example_world)) = 5 \<and>
   fst (call_gemini_api (''key'', ''gemini-2.5-pro'', ''prompt'')
          (example_world\<lparr>backend := (\<lambda>n req. Inl APIError)\<rparr>)) = Inl (RetryError APIError) \<and>
   backend_calls (snd (call_gemini_api (''key'', ''gemini-2.5-pro'', ''prompt'')
          (example_world\<lparr>backend := (\<lambda>n req. Inl APIError)\<rparr>))) = 5"
  using retry_policy[of example_world "(''key'', ''gemini-2.5-pro'', ''prompt'')" APIError APIError APIError APIError
          "Response (Some ''report'')" APIError]
        retry_policy[of "example_world\<lparr>backend := (\<lambda>n req. Inl APIError)\<rparr>" "(''key'', ''gemini-2.5-pro'', ''prompt'')"
          APIError APIError APIError APIError "Response (Some ''report'')" APIError]
  by (simp add: example_world_def)

subsection \<open>Rendering the prompt template\<close>

declare py_format.simps [simp del]

lemma parse_field_today_date:
  "parse_field (''today_date}'' @ rest) = Inr (Field ''today_date'' None [], rest)"
  by (simp add: parse_field_def)

lemma py_format_literal:
  "\<forall>c \<in> set s. \<not> is_brace c \<Longrightarrow> py_format other s d = Inr s"
  by (subst py_format.simps) (simp add: takeWhile_eq_all_conv dropWhile_eq_Nil_conv[THEN iffD2])

lemma py_format_placeholder:
  assumes "\<forall>c \<in> set s. \<not> is_brace c"
  shows "py_format other (s @ ''{today_date}'' @ rest) d =
           (case py_format other rest d of Inl ex \<Rightarrow> Inl ex | Inr out \<Rightarrow> Inr (s @ d @ out))"
proof -
  have t: "takeWhile (\<lambda>c. \<not> is_brace c) (s @ ''{today_date}'' @ rest) = s"
    using assms by (simp add: takeWhile_append is_brace_def)
  have dr: "dropWhile (\<lambda>c. \<not> is_brace c) (s @ ''{today_date}'' @ rest) = CHR ''{'' # ''today_date}'' @ rest"
    using assms by (simp add: dropWhile_append is_brace_def)
  show ?thesis
    apply (subst py_format.simps)
    apply (simp only: t dr)
    apply (simp add: Let_def parse_field_today_date[simplified] render_field_def)
    done
qed

text \<open>
  Claim C6, amended. \<open>str.format\<close> reads every brace of the template, so the claim holds for
  the templates whose only braces are those of the placeholder \<open>{today_date}\<close>: such a
  template is a list of brace-free segments joined by the placeholder, and rendering joins
  the same segments by the date. A template without any brace is returned unchanged.
\<close>

theorem render_prompt:
  "(segs \<noteq> [] \<and> (\<forall>s \<in> set segs. \<forall>c \<in> set s. \<not> is_brace c) \<longrightarrow>
      py_format other (join ''{today_date}'' segs) d = Inr (join d segs)) \<and>
   ((\<forall>c \<in> set s. \<not> is_brace c) \<longrightarrow> py_format other s d = Inr s)"
proof (intro conjI impI)
  assume "segs \<noteq> [] \<and> (\<forall>s \<in> set segs. \<forall>c \<in> set s. \<not> is_brace c)"
  then show "py_format other (join ''{today_date}'' segs) d = Inr (join d segs)"
  proof (induction "''{today_date}''" segs rule: join.induct)
    case 1
    then show ?case by simp
  next
    case (2 x)
    then show ?case by (simp add: py_format_literal)
  next
    case (3 x y ys)
    then have "py_format other (join ''{today_date}'' (y # ys)) d = Inr (join d (y # ys))"
      by simp
    moreover from 3 have "\<forall>c \<in> set x. \<not> is_brace c" by simp
    ultimately show ?case
      using py_format_placeholder[of x other "join ''{today_date}'' (y # ys)" d] by simp
  qed
next
  assume "\<forall>c \<in> set s. \<not> is_brace c"
  then show "py_format other s d = Inr s" by (rule py_format_literal)
qed

theorem render_prompt_witness:
  "py_format (format_other example_world) ''Pre-open {today_date}, again {today_date}.'' ''2025-01-02''
     = Inr ''Pre-open 2025-01-02, again 2025-01-02.'' \<and>
   py_format (format_other example_world) ''no placeholder here'' ''2025-01-02'' = Inr ''no placeholder here''"
  using render_prompt[of "[''Pre-open '', '', again '', ''.'']" "format_other example_world" "''2025-01-02''" "''no placeholder here''"]
  by (simp add: is_brace_def)

text \<open>
  Claim C6 as stated fails: the template \<open>{{}}\<close> has no occurrence of the placeholder and
  is rendered as \<open>{}\<close>, and the template \<open>{date}\<close>, which has none either, raises
  \<open>KeyError\<close> instead of being returned.
\<close>

theorem render_unchanged_counterexample:
  "py_format (format_other example_world) ''{{}}'' ''2025-01-02'' = Inr ''{}'' \<and>
   py_format (format_other example_world) ''{date}'' ''2025-01-02'' = Inl KeyError"
  by (simp add: py_format.simps is_brace_def parse_field_def render_field_def is_digit_def)

subsection \<open>What the operations leave alone\<close>

lemma py_print_frame [simp]:
  "files (py_print x w) = files w" "writable (py_print x w) = writable w"
  "stdin (py_print x w) = stdin w" "argv (py_print x w) = argv w"
  "today (py_print x w) = today w" "genai_importable (py_print x w) = genai_importable w"
  "backend (py_print x w) = backend w" "backend_calls (py_print x w) = backend_calls w"
  "sleeps (py_print x w) = sleeps w" "display_error (py_print x w) = display_error w"
  "format_other (py_print x w) = format_other w"
  "undecodable (py_print x w) = undecodable w"
  "genai_exceptions (py_print x w) = genai_exceptions w"
  "stdout (py_print x w) = stdout w @ [x]"
  by (simp_all add: py_print_def)

lemma run_marker_py_print [simp]: "run_marker (py_print x w) = run_marker w"
  by (simp add: run_marker_def)

lemma get_config_value_world:
  "snd (get_config_value s k fb w) = w \<or>
   (\<exists>x. snd (get_config_value s k fb w) = py_print x w)"
  by (auto simp: get_config_value_def split: sum.splits)

lemma get_config_value_frame [simp]:
  "files (snd (get_config_value s k fb w)) = files w"
  "writable (snd (get_config_value s k fb w)) = writable w"
  "stdin (snd (get_config_value s k fb w)) = stdin w"
  "argv (snd (get_config_value s k fb w)) = argv w"
  "today (snd (get_config_value s k fb w)) = today w"
  "genai_importable (snd (get_config_value s k fb w)) = genai_importable w"
  "backend (snd (get_config_value s k fb w)) = backend w"
  "backend_calls (snd (get_config_value s k fb w)) = backend_calls w"
  "sleeps (snd (get_config_value s k fb w)) = sleeps w"
  "display_error (snd (get_config_value s k fb w)) = display_error w"
  "format_other (snd (get_config_value s k fb w)) = format_other w"
  "undecodable (snd (get_config_value s k fb w)) = undecodable w"
  "genai_exceptions (snd (get_config_value s k fb w)) = genai_exceptions w"
  "run_marker (snd (get_config_value s k fb w)) = run_marker w"
  using get_config_value_world[of s k fb w] by (auto simp: run_marker_def)

lemma pause_frame [simp]:
  "files (snd (pause b w)) = files w" "backend_calls (snd (pause b w)) = backend_calls w"
  "today (snd (pause b w)) = today w"
  by (simp_all add: pause_def py_input_def split: list.splits)

lemma pause_False [simp]: "pause False w = (None, w)"
  by (simp add: pause_def)

lemma retrying_frame [simp]:
  "files (snd (retrying m wt rq a w)) = files w \<and> writable (snd (retrying m wt rq a w)) = writable w \<and>
   stdout (snd (retrying m wt rq a w)) = stdout w \<and> today (snd (retrying m wt rq a w)) = today w \<and>
   backend (snd (retrying m wt rq a w)) = backend w \<and> argv (snd (retrying m wt rq a w)) = argv w \<and>
   stdin (snd (retrying m wt rq a w)) = stdin w \<and>
   display_error (snd (retrying m wt rq a w)) = display_error w"
proof (induction m wt rq a w rule: retrying.induct)
  case (1 m wt rq a w)
  show ?case
  proof (cases "backend w (backend_calls w) rq")
    case (Inr r)
    then show ?thesis by (simp add: retrying_success)
  next
    case (Inl ex)
    show ?thesis
    proof (cases "a < m")
      case False
      with Inl show ?thesis by (simp add: retrying_stop)
    next
      case True
      then have ns: "\<not> stop_after_attempt m a" by (simp add: stop_after_attempt_def)
      from "1.IH"[OF refl refl Inl ns] True Inl show ?thesis
        by (simp add: retrying_again)
    qed
  qed
qed

lemma retrying_last_call:
  "retrying m wt rq a w = (Inr r, w') \<Longrightarrow> backend w (backend_calls w' - 1) rq = Inr r"
proof (induction m wt rq a w rule: retrying.induct)
  case (1 m wt rq a w)
  show ?case
  proof (cases "backend w (backend_calls w) rq")
    case (Inr r')
    with "1.prems" show ?thesis by (auto simp: retrying_success)
  next
    case (Inl ex)
    show ?thesis
    proof (cases "a < m")
      case False
      with Inl "1.prems" show ?thesis by (auto simp: retrying_stop)
    next
      case True
      then have ns: "\<not> stop_after_attempt m a" by (simp add: stop_after_attempt_def)
      from "1.IH"[OF refl refl Inl ns] True Inl "1.prems" show ?thesis
        by (auto simp: retrying_again)
    qed
  qed
qed

lemma display_report_gui_frame [simp]:
  "files (display_report_gui t d w) = files w" "backend_calls (display_report_gui t d w) = backend_calls w"
  "today (display_report_gui t d w) = today w" "stdin (display_report_gui t d w) = stdin w"
  "backend (display_report_gui t d w) = backend w"
  by (simp_all add: display_report_gui_def Let_def split: option.splits py_exception.splits)


lemma call_gemini_api_last_call:
  "call_gemini_api rq w = (Inr r, w') \<Longrightarrow> backend w (backend_calls w' - 1) rq = Inr r"
  unfolding call_gemini_api_def by (rule retrying_last_call)

lemma call_gemini_api_frame [simp]:
  "files (snd (call_gemini_api rq w)) = files w" "writable (snd (call_gemini_api rq w)) = writable w"
  "today (snd (call_gemini_api rq w)) = today w" "backend (snd (call_gemini_api rq w)) = backend w"
  "stdin (snd (call_gemini_api rq w)) = stdin w"
  by (simp_all add: call_gemini_api_def)

lemma call_gemini_api_calls: "backend_calls w < backend_calls (snd (call_gemini_api rq w))"
  using retrying_calls[of w 5 _ rq 1] by (simp add: call_gemini_api_def)

lemma call_gemini_api_last:
  "fst (call_gemini_api rq w) = Inr r \<Longrightarrow> backend w (backend_calls (snd (call_gemini_api rq w)) - 1) rq = Inr r"
  using call_gemini_api_last_call[of rq w r "snd (call_gemini_api rq w)"]
  by (cases "call_gemini_api rq w") simp

lemma save_report_success:
  assumes "fst (save_report response d w) = Inr t"
  shows "files (snd (save_report response d w)) (report_file d) = Some t \<and>
         response = Response (Some t) \<and>
         today (snd (save_report response d w)) = today w \<and>
         backend_calls (snd (save_report response d w)) = backend_calls w \<and>
         backend (snd (save_report response d w)) = backend w"
  using assms
  by (cases response)
     (auto simp: save_report_def case_prod_beta Let_def split: option.splits if_splits sum.splits)

lemma get_meme_stocks_try_success:
  assumes "fst (get_meme_stocks_try k w) = Inr t"
  shows "files (snd (get_meme_stocks_try k w)) (report_file (today w)) = Some t \<and>
         today (snd (get_meme_stocks_try k w)) = today w \<and>
         backend (snd (get_meme_stocks_try k w)) = backend w \<and>
         backend_calls w < backend_calls (snd (get_meme_stocks_try k w)) \<and>
         (\<exists>req. backend w (backend_calls (snd (get_meme_stocks_try k w)) - 1) req = Inr (Response (Some t)))"
proof -
  let ?g1 = "get_config_value ''Prompt'' ''TEMPLATE'' (Some DEFAULT_PROMPT_TEMPLATE) w"
  let ?g2 = "get_config_value ''API'' ''MODEL'' (Some DEFAULT_MODEL) (snd ?g1)"
  from assms obtain pt' where pt': "fst ?g1 = Inr pt'"
    by (cases "fst ?g1") (simp_all add: get_meme_stocks_try_def case_prod_beta Let_def)
  from assms pt' obtain gm where gm: "fst ?g2 = Inr gm"
    by (cases "fst ?g2") (simp_all add: get_meme_stocks_try_def case_prod_beta Let_def)
  from assms pt' gm obtain template where pt: "fst ?g1 = Inr (Some template)"
    by (cases pt') (simp_all add: get_meme_stocks_try_def case_prod_beta Let_def)
  from assms pt gm obtain prompt where pr: "py_format (format_other w) template (today w) = Inr prompt"
    by (cases "py_format (format_other w) template (today w)")
       (simp_all add: get_meme_stocks_try_def case_prod_beta Let_def)
  define model where "model = (case gm of None \<Rightarrow> ''None'' | Some m \<Rightarrow> m)"
  define w3 where "w3 = py_print (PrintF (NL @ ''Generating meme stock report for {today_date} using model '{gemini_model}'...'')
                                      [today w, model]) (snd ?g2)"
  let ?c = "call_gemini_api (k, model, prompt) w3"
  have body: "get_meme_stocks_try k w =
     (case fst ?c of Inl ex \<Rightarrow> (Inl ex, snd ?c) | Inr response \<Rightarrow> save_report response (today w) (snd ?c))"
    unfolding get_meme_stocks_try_def model_def w3_def
    by (simp add: case_prod_beta Let_def pt gm pr split: sum.splits)
  have t3: "today w3 = today w" "backend w3 = backend w" "backend_calls w3 = backend_calls w"
    by (simp_all add: w3_def)
  from assms obtain response where res: "fst ?c = Inr response"
    by (cases "fst ?c") (simp_all add: body)
  then have eq: "get_meme_stocks_try k w = save_report response (today w) (snd ?c)"
    by (simp add: body)
  note sr = save_report_success[OF assms[unfolded eq]]
  let ?s = "save_report response (today w) (snd ?c)"
  from sr have f: "files (snd ?s) (report_file (today w)) = Some t"
    by blast
  from sr have r: "response = Response (Some t)"
    by blast
  from sr have "today (snd ?s) = today (snd ?c)"
    by blast
  then have d: "today (snd ?s) = today w"
    by (simp only: call_gemini_api_frame t3)
  from sr have b: "backend_calls (snd ?s) = backend_calls (snd ?c)"
    by blast
  from sr have "backend (snd ?s) = backend (snd ?c)"
    by blast
  then have bk: "backend (snd ?s) = backend w"
    by (simp only: call_gemini_api_frame t3)
  have "backend w3 (backend_calls (snd ?c) - 1) (k, model, prompt) = Inr response"
    using res by (rule call_gemini_api_last)
  then have l: "backend w (backend_calls (snd ?s) - 1) (k, model, prompt) = Inr response"
    by (simp only: b t3)
  have "backend_calls w3 < backend_calls (snd ?c)"
    by (rule call_gemini_api_calls)
  then have c: "backend_calls w < backend_calls (snd ?s)"
    by (simp only: b t3)
  show ?thesis
    unfolding eq using f d bk c l unfolding r by blast
qed


lemma stdin_save_report [simp]: "stdin (snd (save_report r d w)) = stdin w"
  by (simp add: save_report_def case_prod_beta Let_def split: option.splits sum.splits)

lemma stdin_get_meme_stocks_try [simp]: "stdin (snd (get_meme_stocks_try k w)) = stdin w"
  by (simp add: get_meme_stocks_try_def case_prod_beta Let_def split: option.splits sum.splits)

lemma stdout_pause: "x \<in> set (stdout w) \<Longrightarrow> x \<in> set (stdout (snd (pause b w)))"
  by (auto simp: pause_def py_input_def split: list.splits)

lemma get_meme_stocks_run_mode:
  assumes "run_marker w"
  shows "stdin (snd (get_meme_stocks w)) = stdin w"
  using assms
  by (simp add: get_meme_stocks_def get_meme_stocks_except_def case_prod_beta Let_def
           split: sum.splits)


subsection \<open>The API key check\<close>

text \<open>
  Claim C3. When the value read for \<open>[API] KEY\<close> is absent, empty or the placeholder
  \<open>YOUR_API_KEY_HERE\<close>, report generation calls the service not once, writes no file and,
  the SDK being importable, prints the line that says the key is not set.
\<close>

theorem api_key_not_configured:
  assumes "fst (get_config_value ''API'' ''KEY'' None w) = Inr None \<or>
           fst (get_config_value ''API'' ''KEY'' None w) = Inr (Some []) \<or>
           fst (get_config_value ''API'' ''KEY'' None w) = Inr (Some API_KEY_SENTINEL)"
  shows "backend_calls (snd (get_meme_stocks w)) = backend_calls w \<and>
         files (snd (get_meme_stocks w)) = files w \<and>
         (genai_importable w \<longrightarrow> Print MSG_API_KEY_NOT_SET \<in> set (stdout (snd (get_meme_stocks w))))"
  using assms
  by (auto simp: get_meme_stocks_def case_prod_beta Let_def intro!: stdout_pause)

theorem api_key_not_configured_witness:
  "backend_calls (snd (get_meme_stocks example_world)) = 0 \<and>
   Print MSG_API_KEY_NOT_SET \<in> set (stdout (snd (get_meme_stocks example_world)))"
  using api_key_not_configured[of example_world]
  by (simp add: example_world_def get_config_value_def)

subsection \<open>The entry point\<close>

lemma main_block_run_mode:
  assumes "run_marker w"
  shows "map_option snd (main_block w) =
           Some (let g = get_meme_stocks (py_print (PrintF ''Automated run initiated at {...}'' [now w]) w)
                 in if fst g = None then py_print (Print ''Automated run complete.'') (snd g) else snd g)"
    and "fst (get_meme_stocks (py_print (PrintF ''Automated run initiated at {...}'' [now w]) w)) = None \<Longrightarrow>
         map_option fst (main_block w) = Some 0"
    and "map_option (stdin \<circ> snd) (main_block w) = Some (stdin w)"
proof -
  let ?w = "py_print (PrintF ''Automated run initiated at {...}'' [now w]) w"
  from assms have m: "run_marker ?w"
    by simp
  note g = get_meme_stocks_run_mode[OF m]
  obtain r w' where e: "get_meme_stocks ?w = (r, w')"
    by (cases "get_meme_stocks ?w")
  with g have s: "stdin w' = stdin w"
    by simp
  show "map_option snd (main_block w) =
           Some (let g = get_meme_stocks ?w
                 in if fst g = None then py_print (Print ''Automated run complete.'') (snd g) else snd g)"
    using assms e by (cases r) (simp_all add: main_block_def)
  show "map_option fst (main_block w) = Some 0" if "fst (get_meme_stocks ?w) = None"
    using assms e that by (simp add: main_block_def)
  show "map_option (stdin \<circ> snd) (main_block w) = Some (stdin w)"
    using assms e s by (cases r) (simp_all add: main_block_def)
qed

text \<open>
  Claim C7, amended. The test is on the first argument alone. When it is \<open>run\<close>, whatever
  follows it, the process, its imports done, prints its start line and runs
  \<open>get_meme_stocks\<close> once, without entering the menu and without reading the standard input;
  when \<open>get_meme_stocks\<close> returns, the process prints its end line and exits with status 0.
  With no argument, or a first argument other than \<open>run\<close>, it is the main menu that runs.
\<close>

theorem entry_point:
  assumes "module_imports w = (None, w0)"
  shows "(\<forall>prog rest. argv w = prog # ''run'' # rest \<longrightarrow>
      map_option snd (main w) =
        Some (let g = get_meme_stocks (py_print (PrintF ''Automated run initiated at {...}'' [now w0]) w0)
              in if fst g = None then py_print (Print ''Automated run complete.'') (snd g) else snd g) \<and>
      (fst (get_meme_stocks (py_print (PrintF ''Automated run initiated at {...}'' [now w0]) w0)) = None \<longrightarrow>
         map_option fst (main w) = Some 0) \<and>
      map_option (stdin \<circ> snd) (main w) = Some (stdin w)) \<and>
   (argv w = [] \<or> (\<exists>prog. argv w = [prog]) \<or> (\<exists>prog a rest. argv w = prog # a # rest \<and> a \<noteq> ''run'') \<longrightarrow>
      main w = (case main_menu w0 of
                  None \<Rightarrow> None
                | Some (Some ex, w') \<Rightarrow> Some (1, w')
                | Some (None, w') \<Rightarrow> Some (0, w')))"
proof -
  from assms have m: "main w = main_block w0"
    by (simp add: main_def)
  from assms have a: "argv w0 = argv w" and i: "stdin w0 = stdin w"
    by (auto simp: module_imports_def split: if_splits)
  have "run_marker w0" if "argv w = prog # ''run'' # rest" for prog rest
    using that a by (simp add: run_marker_def)
  then have 1: "\<forall>prog rest. argv w = prog # ''run'' # rest \<longrightarrow>
      map_option snd (main w) =
        Some (let g = get_meme_stocks (py_print (PrintF ''Automated run initiated at {...}'' [now w0]) w0)
              in if fst g = None then py_print (Print ''Automated run complete.'') (snd g) else snd g) \<and>
      (fst (get_meme_stocks (py_print (PrintF ''Automated run initiated at {...}'' [now w0]) w0)) = None \<longrightarrow>
         map_option fst (main w) = Some 0) \<and>
      map_option (stdin \<circ> snd) (main w) = Some (stdin w)"
    unfolding m i[symmetric] using main_block_run_mode[of w0] by blast
  have "\<not> run_marker w0"
    if "argv w = [] \<or> (\<exists>prog. argv w = [prog]) \<or> (\<exists>prog a rest. argv w = prog # a # rest \<and> a \<noteq> ''run'')"
    using that a by (auto simp: run_marker_def)
  then have 2: "argv w = [] \<or> (\<exists>prog. argv w = [prog]) \<or> (\<exists>prog a rest. argv w = prog # a # rest \<and> a \<noteq> ''run'') \<longrightarrow>
      main w = (case main_menu w0 of
                  None \<Rightarrow> None
                | Some (Some ex, w') \<Rightarrow> Some (1, w')
                | Some (None, w') \<Rightarrow> Some (0, w'))"
    by (simp add: m main_block_def)
  from 1 2 show ?thesis by (rule conjI)
qed

theorem entry_point_witness:
  "map_option fst (main (example_world\<lparr>argv := [''meme_stock_tracker.py'', ''run'']\<rparr>)) = Some 0 \<and>
   main (example_world\<lparr>stdin := [''4'']\<rparr>) = Some (0, snd (the (main_menu (example_world\<lparr>stdin := [''4'']\<rparr>))))"
proof -
  let ?r = "example_world\<lparr>argv := [''meme_stock_tracker.py'', ''run'']\<rparr>"
  let ?m = "example_world\<lparr>stdin := [''4'']\<rparr>"
  have 1: "module_imports ?r = (None, ?r)"
    by (simp add: module_imports_def example_world_def)
  have 2: "module_imports ?m = (None, ?m)"
    by (simp add: module_imports_def example_world_def)
  from entry_point[OF 1] entry_point[OF 2] show ?thesis
    by (simp add: example_world_def main_menu.simps py_input_def print_all_def py_print_def strip_def
          lstrip_def rstrip_def is_space_def get_meme_stocks_def get_config_value_def run_marker_def
          pause_def)
qed

text \<open>
  Claim C7 as stated fails for an argument list that is not the single marker but starts
  with it: \<open>run --verbose\<close> does not enter the menu. The run exits with status 0 and leaves
  the waiting input line unread, which the menu would have consumed.
\<close>

theorem entry_point_counterexample:
  "argv example_world_run = [''meme_stock_tracker.py'', ''run'', ''--verbose''] \<and>
   map_option fst (main example_world_run) = Some 0 \<and>
   map_option (stdin \<circ> snd) (main example_world_run) = Some [''4''] \<and>
   map_option (stdin \<circ> snd) (main_menu example_world_run) = Some []"
  by (simp add: example_world_run_def example_world_def main_def main_block_def module_imports_def
        run_marker_def get_meme_stocks_def
        get_config_value_def py_print_def main_menu.simps py_input_def print_all_def strip_def
        lstrip_def rstrip_def is_space_def pause_def)

text \<open>
  A run whose \<open>try\<close> body raises: the service fails at every call, the fifth failure reaches
  the handlers, \<open>google.genai\<close> has no attribute \<open>exceptions\<close>, and the process ends with
  status 1 without its end line.
\<close>

lemma automated_run_failure:
  "map_option fst (main example_world_fail) = Some 1 \<and>
   Print ''Automated run complete.'' \<notin> set (stdout (snd (the (main example_world_fail)))) \<and>
   backend_calls (snd (the (main example_world_fail))) = 5"
  by code_simp

subsection \<open>The day file\<close>

lemma run_success:
  assumes "report_text_of_run w = Some t"
  shows "files (snd (get_meme_stocks w)) (report_file (today w)) = Some t \<and>
         today (snd (get_meme_stocks w)) = today w \<and>
         backend (snd (get_meme_stocks w)) = backend w \<and>
         backend_calls w < backend_calls (snd (get_meme_stocks w)) \<and>
         (\<exists>req. backend w (backend_calls (snd (get_meme_stocks w)) - 1) req = Inr (Response (Some t)))"
proof -
  let ?g = "get_config_value ''API'' ''KEY'' None w"
  from assms have i: "genai_importable w"
    by (simp add: report_text_of_run_def split: if_splits)
  from assms i obtain ak where a: "fst ?g = Inr ak"
    by (cases "fst ?g") (simp_all add: report_text_of_run_def case_prod_beta)
  from assms i a have k: "\<not> (ak = None \<or> ak = Some [] \<or> ak = Some API_KEY_SENTINEL)"
    by (auto simp: report_text_of_run_def case_prod_beta Let_def split: if_splits)
  from assms i a k have r: "fst (get_meme_stocks_try (the ak) (snd ?g)) = Inr t"
    by (auto simp: report_text_of_run_def case_prod_beta Let_def split: if_splits sum.splits)
  have "get_meme_stocks w = (None, snd (get_meme_stocks_try (the ak) (snd ?g)))"
    using i a k r by (auto simp: get_meme_stocks_def case_prod_beta Let_def)
  with get_meme_stocks_try_success[OF r] show ?thesis
    by simp
qed

text \<open>
  Claim C8. When a run that saves the text \<open>t1\<close> is followed by a run that saves the text
  \<open>t2\<close>, the date being the same, the day file holds \<open>t1\<close> after the first and exactly \<open>t2\<close>
  after the second, and \<open>t2\<close> is the text of the response to the last call of the service.
\<close>

theorem report_overwritten:
  assumes "report_text_of_run w0 = Some t1"
      and "w1 = snd (get_meme_stocks w0)"
      and "report_text_of_run w1 = Some t2"
      and "w2 = snd (get_meme_stocks w1)"
  shows "files w1 (report_file (today w0)) = Some t1 \<and>
         files w2 (report_file (today w0)) = Some t2 \<and>
         (\<exists>req. backend w0 (backend_calls w2 - 1) req = Inr (Response (Some t2)))"
  using run_success[OF assms(1)] run_success[OF assms(3)] assms(2,4)
  by simp

theorem report_overwritten_witness:
  "files (snd (get_meme_stocks example_world_key)) ''2025-01-02_MemeStock.txt'' = Some ''first'' \<and>
   files (snd (get_meme_stocks (snd (get_meme_stocks example_world_key)))) ''2025-01-02_MemeStock.txt''
     = Some ''second''"
proof -
  have 1: "report_text_of_run example_world_key = Some ''first''"
    by code_simp
  have 2: "report_text_of_run (snd (get_meme_stocks example_world_key)) = Some ''second''"
    by code_simp
  from report_overwritten[OF 1 refl 2 refl] show ?thesis
    by (simp add: report_file_def example_world_key_def example_world_def)
qed

section \<open>The configuration store\<close>

lemma of_char_lower_char:
  "of_char (lower_char c) = (if is_upper c then of_char c + 32 else (of_char c :: nat))"
  by (auto simp: lower_char_def is_upper_def Let_def)

lemma lower_char_eq_iff:
  assumes "\<not> is_upper x" and "(of_char x :: nat) < 97 \<or> (122 < (of_char x :: nat) \<and> (of_char x :: nat) < 224)"
  shows "lower_char c = x \<longleftrightarrow> c = x"
proof -
  have "lower_char c = x \<longleftrightarrow> (of_char (lower_char c) :: nat) = of_char x"
    by simp
  also have "\<dots> \<longleftrightarrow> (of_char c :: nat) = of_char x"
    using assms by (auto simp: of_char_lower_char is_upper_def Let_def)
  also have "\<dots> \<longleftrightarrow> c = x"
    by simp
  finally show ?thesis .
qed

lemma lower_char_special [simp]:
  "lower_char c = CHR ''#'' \<longleftrightarrow> c = CHR ''#''"
  "lower_char c = CHR '';'' \<longleftrightarrow> c = CHR '';''"
  "lower_char c = CHR ''['' \<longleftrightarrow> c = CHR ''[''"
  "lower_char c = CHR '']'' \<longleftrightarrow> c = CHR '']''"
  "lower_char c = CHR ''='' \<longleftrightarrow> c = CHR ''=''"
  "lower_char c = CHR '':'' \<longleftrightarrow> c = CHR '':''"
  "lower_char c = CHR 0x09 \<longleftrightarrow> c = CHR 0x09"
  "lower_char c = CHR 0x0A \<longleftrightarrow> c = CHR 0x0A"
  "lower_char c = CHR 0x0B \<longleftrightarrow> c = CHR 0x0B"
  "lower_char c = CHR 0x0C \<longleftrightarrow> c = CHR 0x0C"
  "lower_char c = CHR 0x0D \<longleftrightarrow> c = CHR 0x0D"
  "lower_char c = CHR 0x1C \<longleftrightarrow> c = CHR 0x1C"
  "lower_char c = CHR 0x1D \<longleftrightarrow> c = CHR 0x1D"
  "lower_char c = CHR 0x1E \<longleftrightarrow> c = CHR 0x1E"
  "lower_char c = CHR 0x1F \<longleftrightarrow> c = CHR 0x1F"
  "lower_char c = CHR 0x20 \<longleftrightarrow> c = CHR 0x20"
  "lower_char c = CHR 0x85 \<longleftrightarrow> c = CHR 0x85"
  "lower_char c = CHR 0xA0 \<longleftrightarrow> c = CHR 0xA0"
  by (rule lower_char_eq_iff; simp add: is_upper_def)+

lemma is_space_lower_char [simp]: "is_space (lower_char c) = is_space c"
  by (simp add: is_space_def)

lemma is_delim_lower_char [simp]: "is_delim (lower_char c) = is_delim c"
  by (simp add: is_delim_def)

lemma lower_char_idem [simp]: "lower_char (lower_char c) = lower_char c"
  by (auto simp: lower_char_def is_upper_def Let_def)

lemma lower_idem [simp]: "lower (lower s) = lower s"
  by (simp add: lower_def)

lemma lower_Nil [simp]: "lower [] = []" "lower s = [] \<longleftrightarrow> s = []"
  by (simp_all add: lower_def)

lemma lower_literals [simp]:
  "lower ''true'' = ''true''" "lower ''false'' = ''false''"
  "lower ''SHOW_GUI'' = ''show_gui''" "lower ''TIME_UTC'' = ''time_utc''"
  by code_simp+

subsection \<open>Strings\<close>

lemma split_on_not_Nil [simp]: "split_on c s \<noteq> []"
  by (induction s) (auto split: list.splits)

lemma split_on_no_sep: "l \<in> set (split_on c s) \<Longrightarrow> c \<notin> set l"
  by (induction s arbitrary: l) (auto split: list.splits if_splits)

lemma split_on_subset: "l \<in> set (split_on c s) \<Longrightarrow> x \<in> set l \<Longrightarrow> x \<in> set s"
  by (induction s arbitrary: l) (fastforce split: list.splits if_splits)+

lemma join_split_on [simp]: "join [c] (split_on c s) = s"
proof (induction s)
  case Nil
  show ?case by simp
next
  case (Cons a s)
  obtain p ps where sp: "split_on c s = p # ps"
    by (cases "split_on c s") simp_all
  with Cons show ?case
    by (cases ps) auto
qed

lemma split_on_no_sep_id: "c \<notin> set s \<Longrightarrow> split_on c s = [s]"
  by (induction s) auto

lemma split_on_append_sep:
  "c \<notin> set l \<Longrightarrow> split_on c (l @ c # s) = l # split_on c s"
  by (induction l) auto

lemma split_on_join:
  "ls \<noteq> [] \<Longrightarrow> \<forall>l \<in> set ls. c \<notin> set l \<Longrightarrow> split_on c (join [c] ls) = ls"
proof (induction "[c]" ls rule: join.induct)
  case 1
  then show ?case by simp
next
  case (2 x)
  then show ?case by (simp add: split_on_no_sep_id)
next
  case (3 x y ys)
  then show ?case by (simp add: split_on_append_sep)
qed

lemma universal_newlines_id: "CHR 0x0D \<notin> set s \<Longrightarrow> universal_newlines s = s"
  by (induction s rule: universal_newlines.induct) auto

lemma universal_newlines_no_cr: "CHR 0x0D \<notin> set (universal_newlines s)"
  by (induction s rule: universal_newlines.induct) auto

lemma lines_acc_line:
  "CHR 0x0A \<notin> set l \<Longrightarrow> lines_acc cur (l @ CHR 0x0A # s) = (rev cur @ l) # lines_acc [] s"
  by (induction l arbitrary: cur) auto

lemma lines_acc_lines:
  "\<forall>l \<in> set ls. CHR 0x0A \<notin> set l \<Longrightarrow> lines_acc [] (concat (map (\<lambda>l. l @ [CHR 0x0A]) ls)) = ls"
  by (induction ls) (simp_all add: lines_acc_line)

lemma lines_acc_no_nl: "CHR 0x0A \<notin> set cur \<Longrightarrow> l \<in> set (lines_acc cur s) \<Longrightarrow> CHR 0x0A \<notin> set l"
  by (induction cur s arbitrary: l rule: lines_acc.induct) (auto split: if_splits)

lemma lines_acc_subset: "l \<in> set (lines_acc cur s) \<Longrightarrow> x \<in> set l \<Longrightarrow> x \<in> set cur \<or> x \<in> set s"
  by (induction cur s arbitrary: l rule: lines_acc.induct) (auto split: if_splits)

lemma file_lines_no_break: "l \<in> set (file_lines s) \<Longrightarrow> no_line_break l"
  unfolding file_lines_def no_line_break_def
  using lines_acc_no_nl[of "[]" l "universal_newlines s"]
        lines_acc_subset[of l "[]" "universal_newlines s" "CHR 0x0D"]
        universal_newlines_no_cr[of s]
  by auto

lemma replace_newlines_lines:
  "pre @ replace_newlines v @ [CHR 0x0A] =
   concat (map (\<lambda>l. l @ [CHR 0x0A])
     ((pre @ hd (split_on CHR 0x0A v)) # map ((#) CHR 0x09) (tl (split_on CHR 0x0A v))))"
proof (induction v arbitrary: pre)
  case Nil
  show ?case by (simp add: replace_newlines_def)
next
  case (Cons a v)
  obtain p ps where sp: "split_on CHR 0x0A v = p # ps"
    by (cases "split_on CHR 0x0A v") simp_all
  show ?case
  proof (cases "a = CHR 0x0A")
    case True
    have "pre @ replace_newlines (a # v) @ [CHR 0x0A] = pre @ [CHR 0x0A] @ ([CHR 0x09] @ replace_newlines v @ [CHR 0x0A])"
      using True by (simp add: replace_newlines_def)
    also have "\<dots> = pre @ [CHR 0x0A] @
        concat (map (\<lambda>l. l @ [CHR 0x0A]) (([CHR 0x09] @ p) # map ((#) CHR 0x09) ps))"
      using Cons[of "[CHR 0x09]"] sp by simp
    finally show ?thesis
      using True sp by simp
  next
    case False
    have "pre @ replace_newlines (a # v) @ [CHR 0x0A] = (pre @ [a]) @ replace_newlines v @ [CHR 0x0A]"
      using False by (simp add: replace_newlines_def)
    also have "\<dots> = concat (map (\<lambda>l. l @ [CHR 0x0A]) (((pre @ [a]) @ p) # map ((#) CHR 0x09) ps))"
      using Cons[of "pre @ [a]"] sp by simp
    finally show ?thesis
      using False sp by simp
  qed
qed

subsection \<open>Stripping\<close>

lemma is_space_simps [simp]:
  "is_space CHR 0x09" "is_space CHR 0x0A" "is_space CHR 0x0D" "is_space CHR '' ''"
  "\<not> is_space CHR ''[''" "\<not> is_space CHR '']''" "\<not> is_space CHR ''=''" "\<not> is_space CHR '':''"
  "\<not> is_space CHR ''#''" "\<not> is_space CHR '';''"
  by (simp_all add: is_space_def)

lemma is_delim_simps [simp]:
  "is_delim CHR ''=''" "is_delim CHR '':''" "\<not> is_delim CHR '' ''" "\<not> is_delim CHR ''[''"
  "\<not> is_delim CHR '']''" "\<not> is_delim CHR 0x09"
  by (simp_all add: is_delim_def)

lemma is_delim_not_space: "is_delim c \<Longrightarrow> \<not> is_space c"
  by (auto simp: is_delim_def)

lemma rstrip_Nil [simp]: "rstrip [] = []"
  by (simp add: rstrip_def)

lemma lstrip_Nil [simp]: "lstrip [] = []"
  by (simp add: lstrip_def)

lemma strip_Nil [simp]: "strip [] = []"
  by (simp add: strip_def)

lemma rstrip_snoc: "rstrip (s @ [c]) = (if is_space c then rstrip s else s @ [c])"
  by (simp add: rstrip_def)

lemma rstrip_last: "s \<noteq> [] \<Longrightarrow> \<not> is_space (last s) \<Longrightarrow> rstrip s = s"
  by (cases s rule: rev_cases) (simp_all add: rstrip_snoc)

lemma rstrip_append_last: "t \<noteq> [] \<Longrightarrow> \<not> is_space (last t) \<Longrightarrow> rstrip (s @ t) = s @ t"
  by (rule rstrip_last) simp_all

lemma rstrip_spaces: "\<forall>c \<in> set t. is_space c \<Longrightarrow> rstrip (s @ t) = rstrip s"
  by (induction t rule: rev_induct) (simp_all add: rstrip_snoc flip: append_assoc)

lemma lstrip_hd: "s = [] \<or> \<not> is_space (hd s) \<Longrightarrow> lstrip s = s"
  by (cases s) (simp_all add: lstrip_def)

lemma lstrip_Cons: "lstrip (c # s) = (if is_space c then lstrip s else c # s)"
  by (simp add: lstrip_def)

lemma rstrip_not_space_last: "rstrip s \<noteq> [] \<Longrightarrow> \<not> is_space (last (rstrip s))"
  unfolding rstrip_def
  using hd_dropWhile[of is_space "rev s"] by (simp add: last_rev)

lemma lstrip_not_space_hd: "lstrip s \<noteq> [] \<Longrightarrow> \<not> is_space (hd (lstrip s))"
  unfolding lstrip_def by (rule hd_dropWhile)

lemma last_lstrip: "lstrip s \<noteq> [] \<Longrightarrow> last (lstrip s) = last s"
  unfolding lstrip_def
  using last_appendR[of "dropWhile is_space s" "takeWhile is_space s"] by simp

lemma stripped_iff: "stripped s \<longleftrightarrow> s = [] \<or> (\<not> is_space (hd s) \<and> \<not> is_space (last s))"
proof
  assume st: "stripped s"
  show "s = [] \<or> (\<not> is_space (hd s) \<and> \<not> is_space (last s))"
  proof (cases "s = []")
    case False
    with st have ne: "lstrip (rstrip s) \<noteq> []" and eq: "lstrip (rstrip s) = s"
      by (simp_all add: stripped_def strip_def)
    from lstrip_not_space_hd[OF ne] eq have "\<not> is_space (hd s)" by simp
    moreover from ne have "rstrip s \<noteq> []" by auto
    then have "\<not> is_space (last (rstrip s))" by (rule rstrip_not_space_last)
    with last_lstrip[OF ne] eq have "\<not> is_space (last s)" by simp
    ultimately show ?thesis by simp
  qed simp
next
  assume "s = [] \<or> (\<not> is_space (hd s) \<and> \<not> is_space (last s))"
  then show "stripped s"
    by (cases "s = []") (simp_all add: stripped_def strip_def rstrip_last lstrip_hd)
qed

lemma stripped_strip [simp]: "stripped (strip s)"
proof (cases "strip s = []")
  case True
  then show ?thesis by (simp add: stripped_iff)
next
  case False
  then have ne: "lstrip (rstrip s) \<noteq> []" by (simp add: strip_def)
  then have r: "rstrip s \<noteq> []" by auto
  from lstrip_not_space_hd[OF ne] last_lstrip[OF ne] rstrip_not_space_last[OF r]
  show ?thesis by (simp add: stripped_iff strip_def)
qed

lemma strip_stripped: "stripped s \<Longrightarrow> strip s = s"
  by (simp add: stripped_def)

lemma strip_tab: "stripped l \<Longrightarrow> strip (CHR 0x09 # l) = l"
proof (cases "l = []")
  case True
  then show ?thesis by (simp add: strip_def rstrip_def)
next
  case False
  assume "stripped l"
  with False have h: "\<not> is_space (hd l)" and t: "\<not> is_space (last l)"
    by (simp_all add: stripped_iff)
  from False t have "rstrip (CHR 0x09 # l) = CHR 0x09 # l"
    by (intro rstrip_last) simp_all
  with h False show ?thesis
    by (simp add: strip_def lstrip_Cons lstrip_hd)
qed

lemma takeWhile_space_tab: "stripped l \<Longrightarrow> l \<noteq> [] \<Longrightarrow> takeWhile is_space (CHR 0x09 # l) = [CHR 0x09]"
  by (cases l) (auto simp: stripped_iff)

lemma comment_start_simps [simp]:
  "\<not> comment_start []" "comment_start (c # s) \<longleftrightarrow> c = CHR ''#'' \<or> c = CHR '';''"
  by (simp_all add: comment_start_def startswith_def)

lemma is_comment_iff: "is_comment line \<longleftrightarrow> comment_start (strip line)"
  by (simp add: is_comment_def comment_start_def)

subsection \<open>The two patterns\<close>

lemma sect_match_header:
  "n \<noteq> [] \<Longrightarrow> CHR 0x0A \<notin> set n \<Longrightarrow> sect_match (''['' @ n @ '']'') = Some n"
proof -
  assume n: "n \<noteq> []" "CHR 0x0A \<notin> set n"
  then have "takeWhile (\<lambda>x. x \<noteq> CHR 0x0A) (n @ '']'') = n @ '']''"
    by (auto simp: takeWhile_eq_all_conv)
  with n show ?thesis
    by (simp add: sect_match_def)
qed

lemma sect_match_None_iff:
  assumes "CHR 0x0A \<notin> set v"
  shows "sect_match v = None \<longleftrightarrow> v = [] \<or> hd v \<noteq> CHR ''['' \<or> CHR '']'' \<notin> set (tl (tl v))"
proof (cases v)
  case Nil
  then show ?thesis by (simp add: sect_match_def)
next
  case (Cons c rest)
  show ?thesis
  proof (cases "c = CHR ''[''")
    case False
    with Cons show ?thesis by (simp add: sect_match_def)
  next
    case True
    from assms Cons have tw: "takeWhile (\<lambda>x. x \<noteq> CHR 0x0A) rest = rest"
      by (auto simp: takeWhile_eq_all_conv)
    let ?d = "dropWhile (\<lambda>x. x \<noteq> CHR '']'') (rev rest)"
    have sm: "sect_match v = (case ?d of [] \<Rightarrow> None | _ # h \<Rightarrow> if h = [] then None else Some (rev h))"
      using Cons True by (simp add: sect_match_def tw)
    have v: "v \<noteq> []" "hd v = CHR ''[''" "tl (tl v) = tl rest"
      using Cons True by simp_all
    show ?thesis
    proof (cases ?d)
      case Nil
      then have "CHR '']'' \<notin> set rest"
        by (auto simp: dropWhile_eq_Nil_conv)
      then have "CHR '']'' \<notin> set (tl rest)"
        by (cases rest) auto
      moreover have "sect_match v = None"
        unfolding sm Nil by simp
      ultimately show ?thesis
        by (simp only: v) simp
    next
      case (Cons y h)
      define T where "T = takeWhile (\<lambda>x. x \<noteq> CHR '']'') (rev rest)"
      have r: "rev rest = T @ y # h"
        using Cons takeWhile_dropWhile_id[of "\<lambda>x. x \<noteq> CHR '']''" "rev rest"] by (simp add: T_def)
      have y: "y = CHR '']''"
        using Cons hd_dropWhile[of "\<lambda>x. x \<noteq> CHR '']''" "rev rest"] by simp
      have nt: "CHR '']'' \<notin> set T"
        unfolding T_def by (auto dest: set_takeWhileD)
      from r have "rev (rev rest) = rev (T @ y # h)"
        by (rule arg_cong)
      then have rest: "rest = rev h @ y # rev T"
        by simp
      have "h = [] \<longleftrightarrow> CHR '']'' \<notin> set (tl rest)"
      proof
        assume "h = []"
        with rest have "tl rest = rev T"
          by simp
        with nt show "CHR '']'' \<notin> set (tl rest)" by simp
      next
        assume a: "CHR '']'' \<notin> set (tl rest)"
        show "h = []"
        proof (rule ccontr)
          assume "h \<noteq> []"
          then obtain z zs where "rev h = z # zs" by (cases "rev h") auto
          with rest have "tl rest = zs @ y # rev T"
            by simp
          with y a show False by simp
        qed
      qed
      moreover have "sect_match v = None \<longleftrightarrow> h = []"
        unfolding sm Cons by simp
      ultimately show ?thesis
        by (simp only: v) simp
    qed
  qed
qed

lemma opt_match_entry:
  assumes "\<forall>c \<in> set k. \<not> is_delim c" and "k \<noteq> []" and "\<not> is_space (last k)"
    and "\<forall>c \<in> set sp. is_space c" and "\<forall>c \<in> set sp'. is_space c" and "l = [] \<or> \<not> is_space (hd l)"
  shows "opt_match (k @ sp @ CHR ''='' # sp' @ l) = Some (k, l)"
proof -
  have nd: "\<forall>c \<in> set (k @ sp). \<not> is_delim c"
    using assms(1,4) is_delim_not_space by auto
  have tw: "takeWhile (\<lambda>c. \<not> is_delim c) ((k @ sp) @ CHR ''='' # sp' @ l) = k @ sp"
    using nd by (subst takeWhile_append2) auto
  have dw: "dropWhile (\<lambda>c. \<not> is_delim c) ((k @ sp) @ CHR ''='' # sp' @ l) = CHR ''='' # sp' @ l"
    using nd by (subst dropWhile_append2) auto
  have a: "rev (dropWhile is_space (rev (k @ sp))) = k"
    using rstrip_spaces[OF assms(4), of k] rstrip_last[OF assms(2,3)] by (simp add: rstrip_def)
  have b: "dropWhile is_space (sp' @ l) = l"
    using assms(5,6) by (cases l) (simp_all add: dropWhile_append1 dropWhile_append2 dropWhile_eq_Nil_conv)
  show ?thesis
    using tw dw a b by (simp add: opt_match_def)
qed

subsection \<open>Association lists\<close>

lemma update_new: "k \<notin> fst ` set d \<Longrightarrow> AList.update k v d = d @ [(k, v)]"
  by (induction d) auto

lemma map_entry_last: "k \<notin> fst ` set d \<Longrightarrow> AList.map_entry k f (d @ [(k, v)]) = d @ [(k, f v)]"
  by (induction d) auto

lemma map_entry_comp: "AList.map_entry k f (AList.map_entry k g d) = AList.map_entry k (\<lambda>x. f (g x)) d"
  by (induction d) auto

lemma map_entry_cong:
  "map_of d k = Some x \<Longrightarrow> f x = g x \<Longrightarrow> AList.map_entry k f d = AList.map_entry k g d"
  by (induction d) (auto split: if_splits)

lemma map_of_map_entry:
  "map_of (AList.map_entry k f d) k' = (if k' = k then map_option f (map_of d k) else map_of d k')"
  by (induction d) auto

lemma map_fst_map_entry [simp]: "map fst (AList.map_entry k f d) = map fst d"
  by (induction d) auto

lemma map_of_snoc_new: "k \<notin> fst ` set d \<Longrightarrow> map_of (d @ [(k, v)]) k = Some v"
  by (induction d) auto

lemma map_entry_ident: "AList.map_entry k (\<lambda>x. x) = (\<lambda>d. d)"
proof
  fix d :: "('a \<times> 'b) list"
  show "AList.map_entry k (\<lambda>x. x) d = d"
    by (induction d) auto
qed

subsection \<open>The current section\<close>

lemma cur_ok_sectname: "cur_ok p \<Longrightarrow> sectname p \<noteq> None"
  by (auto simp: cur_ok_def split: option.splits)

lemma cursect_update_fields [simp]:
  "sectname (cursect_update f p) = sectname p" "optname (cursect_update f p) = optname p"
  "indent_level (cursect_update f p) = indent_level p" "e (cursect_update f p) = e p"
  "map fst (p_sections (cursect_update f p)) = map fst (p_sections p)"
  by (simp_all add: cursect_update_def split: option.splits)

lemma cur_ok_cursect_update [simp]: "cur_ok (cursect_update f p) = cur_ok p"
proof -
  have "fst ` set (p_sections (cursect_update f p)) = fst ` set (p_sections p)"
    using cursect_update_fields(5)[of f p] by (metis set_map)
  then show ?thesis by (simp add: cur_ok_def split: option.splits)
qed

lemma cursect_fields [simp]:
  "cursect (p\<lparr>optname := o'\<rparr>) = cursect p" "cursect (p\<lparr>indent_level := i\<rparr>) = cursect p"
  "cursect (p\<lparr>e := b\<rparr>) = cursect p"
  by (simp_all add: cursect_def split: option.splits)

lemma cur_ok_fields [simp]:
  "cur_ok (p\<lparr>optname := o'\<rparr>) = cur_ok p" "cur_ok (p\<lparr>indent_level := i\<rparr>) = cur_ok p"
  "cur_ok (p\<lparr>e := b\<rparr>) = cur_ok p"
  by (simp_all add: cur_ok_def split: option.splits)

lemma cursect_update_commute [simp]:
  "cursect_update f (p\<lparr>optname := o'\<rparr>) = (cursect_update f p)\<lparr>optname := o'\<rparr>"
  "cursect_update f (p\<lparr>indent_level := i\<rparr>) = (cursect_update f p)\<lparr>indent_level := i\<rparr>"
  by (simp_all add: cursect_update_def split: option.splits)

lemma cursect_cursect_update:
  "cur_ok p \<Longrightarrow> cursect (cursect_update f p) = f (cursect p)"
  by (auto simp: cur_ok_def cursect_def cursect_update_def map_of_map_entry
           split: option.splits dest: map_of_eq_None_iff[THEN iffD1])

lemma cursect_update_comp:
  "cursect_update f (cursect_update g p) = cursect_update (\<lambda>x. f (g x)) p"
  by (simp add: cursect_update_def map_entry_comp split: option.splits)

lemma cursect_update_ident: "cursect_update (\<lambda>d. d) p = p"
proof -
  have "AList.map_entry n (\<lambda>d. d) xs = xs" for n and xs :: "(string list pydict) pydict"
    by (induction xs) auto
  then show ?thesis
    by (simp add: cursect_update_def split: option.splits)
qed

lemma cursect_update_cong:
  "cur_ok p \<Longrightarrow> f (cursect p) = g (cursect p) \<Longrightarrow> cursect_update f p = cursect_update g p"
proof -
  assume ok: "cur_ok p" and fg: "f (cursect p) = g (cursect p)"
  show ?thesis
  proof (cases "sectname p")
    case None
    then show ?thesis by (simp add: cursect_update_def)
  next
    case (Some n)
    show ?thesis
    proof (cases "n = DEFAULTSECT")
      case True
      with Some fg show ?thesis by (simp add: cursect_update_def cursect_def)
    next
      case False
      with Some ok obtain d where d: "map_of (p_sections p) n = Some d"
        by (auto simp: cur_ok_def dest: map_of_eq_None_iff[THEN iffD1]) (metis domD domI fst_conv imageI map_of_eq_None_iff option.exhaust)
      with Some False fg have "f d = g d" by (simp add: cursect_def)
      with d have "AList.map_entry n f (p_sections p) = AList.map_entry n g (p_sections p)"
        by (rule map_entry_cong)
      with Some False show ?thesis by (simp add: cursect_update_def)
    qed
  qed
qed

subsection \<open>One line\<close>

lemma read_line_header:
  assumes "wf_section_name n" and "n \<notin> fst ` set (p_sections p)"
  shows "read_line p (''['' @ n @ '']'') =
           Inr (p\<lparr>p_sections := p_sections p @ [(n, [])], sectname := Some n, optname := None,
                   indent_level := 0\<rparr>)"
proof -
  let ?l = "''['' @ n @ '']''"
  from assms(1) have n: "n \<noteq> []" "CHR 0x0A \<notin> set n" "n \<noteq> DEFAULTSECT"
    by (simp_all add: wf_section_name_def no_line_break_def)
  have st: "strip ?l = ?l"
    by (rule strip_stripped) (simp add: stripped_iff)
  have nc: "\<not> is_comment ?l"
    by (simp only: is_comment_iff st) simp
  have sm: "sect_match ?l = Some n"
    using n(1,2) by (rule sect_match_header)
  show ?thesis
    unfolding read_line_def
    apply (simp only: st nc if_False Let_def sm)
    using assms(2) n(3) apply simp
    done
qed

lemma read_line_default_header:
  assumes "DEFAULTSECT \<notin> fst ` set (p_sections p)"
  shows "read_line p (''['' @ DEFAULTSECT @ '']'') =
           Inr (p\<lparr>sectname := Some DEFAULTSECT, optname := None, indent_level := 0\<rparr>)"
proof -
  let ?l = "''['' @ DEFAULTSECT @ '']''"
  have st: "strip ?l = ?l"
    by (rule strip_stripped) (simp add: stripped_iff)
  have nc: "\<not> is_comment ?l"
    by (simp only: is_comment_iff st) simp
  have sm: "sect_match ?l = Some DEFAULTSECT"
    by (rule sect_match_header) (simp_all add: DEFAULTSECT_def)
  show ?thesis
    unfolding read_line_def
    apply (simp only: st nc if_False Let_def sm)
    using assms apply simp
    done
qed

lemma read_line_blank_none:
  "optname p = None \<Longrightarrow> read_line p [] = Inr p"
  by (simp add: read_line_def optname_set_def is_comment_iff)

lemma read_line_blank_some:
  "sectname p \<noteq> None \<Longrightarrow> optname p = Some k \<Longrightarrow> k \<noteq> [] \<Longrightarrow>
   read_line p [] = Inr (cursect_update (AList.map_entry k (\<lambda>ls. ls @ [[]])) p)"
  by (simp add: read_line_def optname_set_def is_comment_iff)

lemma read_line_cont:
  assumes "sectname p \<noteq> None" and "optname p = Some k" and "k \<noteq> []" and "indent_level p = 0"
    and "stripped l" and "\<not> comment_start l"
  shows "read_line p (CHR 0x09 # l) = Inr (cursect_update (AList.map_entry k (\<lambda>ls. ls @ [l])) p)"
proof (cases "l = []")
  case True
  have "strip [CHR 0x09] = []"
    by (simp add: strip_def rstrip_def)
  with True assms show ?thesis
    by (simp add: read_line_def optname_set_def is_comment_iff)
next
  case False
  have st: "strip (CHR 0x09 # l) = l"
    using assms(5) by (rule strip_tab)
  have nc: "\<not> is_comment (CHR 0x09 # l)"
    using assms(6) by (simp add: is_comment_iff st)
  have tw: "takeWhile is_space (CHR 0x09 # l) = [CHR 0x09]"
    using assms(5) False by (rule takeWhile_space_tab)
  show ?thesis
    unfolding read_line_def
    apply (simp only: st nc if_False Let_def tw)
    using False assms(1-4) apply (simp add: optname_set_def)
    done
qed

lemma read_lines_append:
  "read_lines p (xs @ ys) = (case read_lines p xs of Inl err \<Rightarrow> Inl err | Inr p' \<Rightarrow> read_lines p' ys)"
  by (induction xs arbitrary: p) (simp_all split: sum.splits)

lemma read_lines_cont:
  assumes "sectname p \<noteq> None" and "optname p = Some k" and "k \<noteq> []" and "indent_level p = 0"
    and "\<forall>l \<in> set ls. stripped l \<and> \<not> comment_start l"
  shows "read_lines p (map ((#) CHR 0x09) ls) =
           Inr (cursect_update (AList.map_entry k (\<lambda>x. x @ ls)) p)"
  using assms
proof (induction ls arbitrary: p)
  case Nil
  show ?case by (simp add: map_entry_ident cursect_update_ident)
next
  case (Cons l ls)
  let ?p = "cursect_update (AList.map_entry k (\<lambda>x. x @ [l])) p"
  from Cons.prems have "read_line p (CHR 0x09 # l) = Inr ?p"
    by (intro read_line_cont) simp_all
  moreover from Cons.prems have "read_lines ?p (map ((#) CHR 0x09) ls) =
      Inr (cursect_update (AList.map_entry k (\<lambda>x. x @ ls)) ?p)"
    by (intro Cons.IH) simp_all
  ultimately show ?case
    by (simp add: cursect_update_comp map_entry_comp)
qed

lemma value_lines_Cons: "value_lines v = hd (value_lines v) # tl (value_lines v)"
  by (simp add: value_lines_def)

lemma wf_value_hd: "wf_value v \<Longrightarrow> stripped (hd (value_lines v))"
  using value_lines_Cons[of v] by (simp add: wf_value_def) (metis list.set_intros(1))

lemma strip_entry_line:
  assumes "wf_key k" and "stripped l"
  shows "strip (k @ '' = '' @ l) = (if l = [] then k @ '' ='' else k @ '' = '' @ l)"
proof -
  from assms(1) have k: "k \<noteq> []" "\<not> is_space (hd k)" "\<not> is_space (last k)"
    by (auto simp: wf_key_def stripped_iff)
  show ?thesis
  proof (cases "l = []")
    case True
    have "rstrip ((k @ '' ='') @ '' '') = rstrip (k @ '' ='')"
      by (rule rstrip_spaces) simp
    also have "\<dots> = k @ '' =''"
      by (rule rstrip_append_last) simp_all
    finally have "rstrip (k @ '' = '') = k @ '' =''" by simp
    moreover have "lstrip (k @ '' ='') = k @ '' =''"
      using k by (intro lstrip_hd) simp
    ultimately show ?thesis using True by (simp add: strip_def)
  next
    case False
    with assms(2) have "\<not> is_space (last l)" by (simp add: stripped_iff)
    with False k have "stripped (k @ '' = '' @ l)"
      by (simp add: stripped_iff)
    with False show ?thesis by (simp add: strip_stripped)
  qed
qed

lemma read_line_entry:
  assumes ok: "cur_ok p" and wf: "wf_entry k v" and new: "k \<notin> fst ` set (cursect p)"
  shows "read_line p (entry_line k v) =
           Inr ((cursect_update (\<lambda>d. d @ [(k, [hd (value_lines v)])]) p)
                  \<lparr>indent_level := 0, optname := Some k\<rparr>)"
proof -
  define l where "l = hd (value_lines v)"
  define line where "line = k @ '' = '' @ l"
  define val where "val = strip line"
  from wf have wk: "wf_key k" and sl: "stripped l"
    by (simp_all add: wf_entry_def l_def wf_value_hd)
  from wk have k: "k \<noteq> []" "\<not> is_space (hd k)" "\<not> is_space (last k)" "\<not> comment_start k"
    "\<forall>c \<in> set k. \<not> is_delim c" "rstrip k = k" "lower k = k"
    by (auto simp: wf_key_def stripped_iff intro: rstrip_last)
  have val: "val = k @ (if l = [] then '' '' else '' '') @ CHR ''='' # (if l = [] then [] else '' '') @ l"
    unfolding val_def line_def using strip_entry_line[OF wk sl] by simp
  have ne: "val \<noteq> []" using k(1) by (simp add: val)
  have hd: "hd val = hd k" using k(1) by (simp add: val)
  have nc: "\<not> is_comment line"
    unfolding is_comment_iff val_def[symmetric] using k(1,4) hd ne
    by (cases val; cases k) simp_all
  have ind: "takeWhile is_space line = []"
    using k(1,2) by (cases k) (simp_all add: line_def)
  from wf have sm: "sect_match val = None"
    by (simp add: wf_entry_def val_def line_def entry_line_def l_def)
  have om: "opt_match val = Some (k, l)"
    unfolding val
    using k sl by (intro opt_match_entry) (auto simp: stripped_iff)
  from ok have sn: "sectname p \<noteq> None"
    by (auto simp: cur_ok_def split: option.splits)
  have upd: "cursect_update (AList.update k [strip l]) p = cursect_update (\<lambda>d. d @ [(k, [l])]) p"
    using ok
  proof (rule cursect_update_cong)
    show "AList.update k [strip l] (cursect p) = cursect p @ [(k, [l])]"
      using new sl by (simp add: update_new strip_stripped)
  qed
  have new': "k \<notin> set (map fst (cursect p))" using new by simp
  have "read_line p line =
           Inr ((cursect_update (\<lambda>d. d @ [(k, [l])]) p)\<lparr>indent_level := 0, optname := Some k\<rparr>)"
    unfolding read_line_def
    apply (simp only: nc if_False Let_def val_def[symmetric] ne ind list.size sm option.case)
    apply (simp only: om option.case prod.case k(1) if_False k(6,7))
    using sn new' upd apply simp
    done
  then show ?thesis
    by (simp add: line_def l_def entry_line_def)
qed

lemma read_lines_entry:
  assumes ok: "cur_ok p" and wf: "wf_entry k v" and new: "k \<notin> fst ` set (cursect p)"
  shows "read_lines p (entry_lines (k, v)) =
           Inr ((cursect_update (\<lambda>d. d @ [(k, value_lines v)]) p)
                  \<lparr>indent_level := 0, optname := Some k\<rparr>)"
proof -
  define l where "l = hd (value_lines v)"
  define ls where "ls = tl (value_lines v)"
  define p1 where "p1 = (cursect_update (\<lambda>d. d @ [(k, [l])]) p)\<lparr>indent_level := 0, optname := Some k\<rparr>"
  have vl: "value_lines v = l # ls"
    using value_lines_Cons[of v] by (simp add: l_def ls_def)
  from wf have k: "k \<noteq> []" by (simp add: wf_entry_def wf_key_def)
  from wf have "\<forall>x \<in> set (value_lines v). stripped x"
    and "\<forall>x \<in> set (tl (value_lines v)). \<not> comment_start x"
    by (simp_all add: wf_entry_def wf_value_def)
  then have wls: "\<forall>x \<in> set ls. stripped x \<and> \<not> comment_start x"
    unfolding ls_def[symmetric] vl by simp
  have 1: "read_line p (entry_line k v) = Inr p1"
    unfolding p1_def l_def using ok wf new by (rule read_line_entry)
  have 2: "read_lines p1 (map ((#) CHR 0x09) ls) =
             Inr (cursect_update (AList.map_entry k (\<lambda>x. x @ ls)) p1)"
    using wls k cur_ok_sectname[OF ok] by (intro read_lines_cont) (simp_all add: p1_def)
  have "cursect_update (\<lambda>d. AList.map_entry k (\<lambda>x. x @ ls) (d @ [(k, [l])])) p =
        cursect_update (\<lambda>d. d @ [(k, l # ls)]) p"
    using ok
  proof (rule cursect_update_cong)
    show "AList.map_entry k (\<lambda>x. x @ ls) (cursect p @ [(k, [l])]) = cursect p @ [(k, l # ls)]"
      using new by (simp add: map_entry_last)
  qed
  then have 3: "cursect_update (AList.map_entry k (\<lambda>x. x @ ls)) p1 =
      (cursect_update (\<lambda>d. d @ [(k, l # ls)]) p)\<lparr>indent_level := 0, optname := Some k\<rparr>"
    by (simp add: p1_def cursect_update_comp)
  show ?thesis
    using 1 2 3 by (simp add: entry_lines_def vl ls_def[symmetric])
qed

lemma last_key_simps [simp]:
  "last_key [] = None" "last_key [kv] = Some (fst kv)" "d \<noteq> [] \<Longrightarrow> last_key (kv # d) = last_key d"
  by (simp_all add: last_key_def)

lemma raw_dict_simps [simp]:
  "raw_dict [] = []" "raw_dict (kv # d) = (fst kv, value_lines (snd kv)) # raw_dict d"
  "map fst (raw_dict d) = map fst d" "raw_dict d = [] \<longleftrightarrow> d = []"
  by (simp_all add: raw_dict_def)

lemma read_lines_dict:
  assumes "cur_ok p" and "wf_dict d" and "fst ` set d \<inter> fst ` set (cursect p) = {}" and "d \<noteq> []"
  shows "read_lines p (concat (map entry_lines d)) =
           Inr ((cursect_update (\<lambda>x. x @ raw_dict d) p)\<lparr>indent_level := 0, optname := last_key d\<rparr>)"
  using assms
proof (induction d arbitrary: p)
  case Nil
  then show ?case by simp
next
  case (Cons kv d)
  obtain k v where kv: "kv = (k, v)" by (cases kv)
  define p1 where "p1 = (cursect_update (\<lambda>d. d @ [(k, value_lines v)]) p)\<lparr>indent_level := 0, optname := Some k\<rparr>"
  from Cons.prems kv have wf: "wf_entry k v" and wd: "wf_dict d" and kd: "k \<notin> fst ` set d"
    and new: "k \<notin> fst ` set (cursect p)" and dis: "fst ` set d \<inter> fst ` set (cursect p) = {}"
    by (auto simp: wf_dict_def)
  have 1: "read_lines p (entry_lines kv) = Inr p1"
    unfolding kv p1_def using Cons.prems(1) wf new by (rule read_lines_entry)
  have ok1: "cur_ok p1" using Cons.prems(1) by (simp add: p1_def)
  have c1: "cursect p1 = cursect p @ [(k, value_lines v)]"
    using Cons.prems(1) by (simp add: p1_def cursect_cursect_update)
  show ?case
  proof (cases "d = []")
    case True
    with 1 show ?thesis by (simp add: p1_def kv)
  next
    case False
    have "read_lines p1 (concat (map entry_lines d)) =
           Inr ((cursect_update (\<lambda>x. x @ raw_dict d) p1)\<lparr>indent_level := 0, optname := last_key d\<rparr>)"
      using ok1 wd _ False
    proof (rule Cons.IH)
      show "fst ` set d \<inter> fst ` set (cursect p1) = {}"
        using dis kd by (auto simp: c1)
    qed
    with 1 False show ?thesis
      by (simp add: read_lines_append p1_def kv cursect_update_comp)
  qed
qed

lemma map_entry_close:
  assumes "distinct (map fst rd)" and "rd \<noteq> []"
  shows "AList.map_entry (fst (last rd)) (\<lambda>ls. ls @ [[]]) rd = close_dict rd"
proof -
  from assms(2) have rd: "rd = butlast rd @ [(fst (last rd), snd (last rd))]"
    by simp
  with assms(1) have "distinct (map fst (butlast rd) @ [fst (last rd)])"
    by (metis (no_types, lifting) fst_conv list.simps(8,9) map_append)
  then have "fst (last rd) \<notin> fst ` set (butlast rd)"
    by auto
  then have "AList.map_entry (fst (last rd)) (\<lambda>ls. ls @ [[]]) (butlast rd @ [(fst (last rd), snd (last rd))])
           = butlast rd @ [(fst (last rd), snd (last rd) @ [[]])]"
    by (rule map_entry_last)
  with rd assms(2) show ?thesis
    by (simp add: close_dict_def)
qed

lemma last_key_raw_dict [simp]: "last_key (raw_dict d) = last_key d"
  by (simp add: last_key_def raw_dict_def last_map)

lemma wf_dict_last_key: "wf_dict d \<Longrightarrow> last_key d = Some k \<Longrightarrow> k \<noteq> []"
  by (auto simp: wf_dict_def last_key_def wf_entry_def wf_key_def split: if_splits prod.splits)
     (metis last_in_set prod.collapse)

lemma read_lines_body:
  assumes ok: "cur_ok p" and emp: "cursect p = []" and wd: "wf_dict d"
    and o: "optname p = None" and i: "indent_level p = 0"
  shows "read_lines p (concat (map entry_lines d) @ [[]]) =
           Inr ((cursect_update (\<lambda>_. close_dict (raw_dict d)) p)\<lparr>optname := last_key d\<rparr>)"
proof (cases "d = []")
  case True
  have "cursect_update (\<lambda>_. []) p = cursect_update (\<lambda>d. d) p"
    using ok by (rule cursect_update_cong) (simp add: emp)
  with True o i show ?thesis
    by (simp add: read_line_blank_none close_dict_def cursect_update_ident)
next
  case False
  define k where "k = fst (last d)"
  define p1 where "p1 = (cursect_update (\<lambda>x. x @ raw_dict d) p)\<lparr>indent_level := 0, optname := last_key d\<rparr>"
  have lk: "last_key d = Some k"
    using False by (simp add: last_key_def k_def)
  with wd have k: "k \<noteq> []" by (rule wf_dict_last_key)
  have 1: "read_lines p (concat (map entry_lines d)) = Inr p1"
    unfolding p1_def using ok wd _ False by (rule read_lines_dict) (simp add: emp)
  have 2: "read_line p1 [] = Inr (cursect_update (AList.map_entry k (\<lambda>ls. ls @ [[]])) p1)"
    using cur_ok_sectname[OF ok] k by (intro read_line_blank_some) (simp_all add: p1_def lk)
  have "cursect_update (\<lambda>x. AList.map_entry k (\<lambda>ls. ls @ [[]]) (x @ raw_dict d)) p =
        cursect_update (\<lambda>_. close_dict (raw_dict d)) p"
    using ok
  proof (rule cursect_update_cong)
    have "distinct (map fst (raw_dict d))" using wd by (simp add: wf_dict_def)
    moreover have "raw_dict d \<noteq> []" using False by simp
    ultimately have "AList.map_entry (fst (last (raw_dict d))) (\<lambda>ls. ls @ [[]]) (raw_dict d) = close_dict (raw_dict d)"
      by (rule map_entry_close)
    moreover have "fst (last (raw_dict d)) = k"
      using False by (simp add: raw_dict_def last_map k_def)
    ultimately show "AList.map_entry k (\<lambda>ls. ls @ [[]]) (cursect p @ raw_dict d) = close_dict (raw_dict d)"
      by (simp add: emp)
  qed
  then have 3: "cursect_update (AList.map_entry k (\<lambda>ls. ls @ [[]])) p1 =
      (cursect_update (\<lambda>_. close_dict (raw_dict d)) p)\<lparr>optname := last_key d\<rparr>"
    using i by (simp add: p1_def cursect_update_comp)
  show ?thesis
    using 1 2 3 by (simp add: read_lines_append)
qed

lemma read_lines_section:
  assumes n: "wf_section_name n" and new: "n \<notin> fst ` set (p_sections p)" and wd: "wf_dict d"
  shows "read_lines p (section_lines n d) =
           Inr (p\<lparr>p_sections := p_sections p @ [(n, close_dict (raw_dict d))], sectname := Some n,
                   optname := last_key d, indent_level := 0\<rparr>)"
proof -
  define p0 where "p0 = p\<lparr>p_sections := p_sections p @ [(n, [])], sectname := Some n, optname := None,
                   indent_level := 0\<rparr>"
  from n have nd: "n \<noteq> DEFAULTSECT" by (simp add: wf_section_name_def)
  have 1: "read_line p (''['' @ n @ '']'') = Inr p0"
    unfolding p0_def using n new by (rule read_line_header)
  have ok: "cur_ok p0" by (simp add: p0_def cur_ok_def)
  have mo: "map_of (p_sections p @ [(n, [])]) n = Some []"
    using new by (rule map_of_snoc_new)
  have emp: "cursect p0 = []"
    using nd mo by (simp add: p0_def cursect_def)
  have 2: "read_lines p0 (concat (map entry_lines d) @ [[]]) =
           Inr ((cursect_update (\<lambda>_. close_dict (raw_dict d)) p0)\<lparr>optname := last_key d\<rparr>)"
    using ok emp wd by (rule read_lines_body) (simp_all add: p0_def)
  have 3: "cursect_update (\<lambda>_. close_dict (raw_dict d)) p0 =
           p0\<lparr>p_sections := p_sections p @ [(n, close_dict (raw_dict d))]\<rparr>"
    using nd new by (simp add: cursect_update_def p0_def map_entry_last)
  show ?thesis
    using 1 2 by (simp add: section_lines_def 3) (simp add: p0_def)
qed

lemma read_lines_default_section:
  assumes emp: "p_defaults p = []" and new: "DEFAULTSECT \<notin> fst ` set (p_sections p)" and wd: "wf_dict d"
  shows "read_lines p (section_lines DEFAULTSECT d) =
           Inr (p\<lparr>p_defaults := close_dict (raw_dict d), sectname := Some DEFAULTSECT,
                   optname := last_key d, indent_level := 0\<rparr>)"
proof -
  define p0 where "p0 = p\<lparr>sectname := Some DEFAULTSECT, optname := None, indent_level := 0\<rparr>"
  have 1: "read_line p (''['' @ DEFAULTSECT @ '']'') = Inr p0"
    unfolding p0_def using new by (rule read_line_default_header)
  have ok: "cur_ok p0" by (simp add: p0_def cur_ok_def)
  have emp: "cursect p0 = []"
    using emp by (simp add: p0_def cursect_def)
  have 2: "read_lines p0 (concat (map entry_lines d) @ [[]]) =
           Inr ((cursect_update (\<lambda>_. close_dict (raw_dict d)) p0)\<lparr>optname := last_key d\<rparr>)"
    using ok emp wd by (rule read_lines_body) (simp_all add: p0_def)
  have 3: "cursect_update (\<lambda>_. close_dict (raw_dict d)) p0 = p0\<lparr>p_defaults := close_dict (raw_dict d)\<rparr>"
    by (simp add: cursect_update_def p0_def)
  show ?thesis
    using 1 2 by (simp add: section_lines_def 3) (simp add: p0_def)
qed

lemma read_lines_sections:
  assumes "distinct (map fst secs)" and "\<forall>(n, d) \<in> set secs. wf_section_name n \<and> wf_dict d"
    and "fst ` set secs \<inter> fst ` set (p_sections p) = {}"
  shows "\<exists>p'. read_lines p (concat (map (\<lambda>(n, d). section_lines n d) secs)) = Inr p' \<and>
              p_sections p' = p_sections p @ map (\<lambda>(n, d). (n, close_dict (raw_dict d))) secs \<and>
              p_defaults p' = p_defaults p \<and> e p' = e p"
  using assms
proof (induction secs arbitrary: p)
  case Nil
  then show ?case by simp
next
  case (Cons nd secs)
  obtain n d where nd: "nd = (n, d)" by (cases nd)
  define p1 where "p1 = p\<lparr>p_sections := p_sections p @ [(n, close_dict (raw_dict d))], sectname := Some n,
                   optname := last_key d, indent_level := 0\<rparr>"
  from Cons.prems nd have wn: "wf_section_name n" and wd: "wf_dict d" and new: "n \<notin> fst ` set (p_sections p)"
    and nsecs: "n \<notin> fst ` set secs" and dis: "fst ` set secs \<inter> fst ` set (p_sections p) = {}"
    by auto
  have 1: "read_lines p (section_lines n d) = Inr p1"
    unfolding p1_def using wn new wd by (rule read_lines_section)
  have "\<exists>p'. read_lines p1 (concat (map (\<lambda>(n, d). section_lines n d) secs)) = Inr p' \<and>
              p_sections p' = p_sections p1 @ map (\<lambda>(n, d). (n, close_dict (raw_dict d))) secs \<and>
              p_defaults p' = p_defaults p1 \<and> e p' = e p1"
  proof (rule Cons.IH)
    show "distinct (map fst secs)" using Cons.prems(1) by simp
    show "\<forall>(n, d) \<in> set secs. wf_section_name n \<and> wf_dict d" using Cons.prems(2) by simp
    show "fst ` set secs \<inter> fst ` set (p_sections p1) = {}"
      using dis nsecs by (auto simp: p1_def)
  qed
  then obtain p' where "read_lines p1 (concat (map (\<lambda>(n, d). section_lines n d) secs)) = Inr p'"
    and "p_sections p' = p_sections p1 @ map (\<lambda>(n, d). (n, close_dict (raw_dict d))) secs"
    and "p_defaults p' = p_defaults p1" and "e p' = e p1"
    by blast
  with 1 show ?case
    by (simp add: nd read_lines_append p1_def)
qed

subsection \<open>What is written\<close>

lemma entry_text_lines:
  "k @ '' = '' @ replace_newlines v @ [CHR 0x0A] =
   concat (map (\<lambda>l. l @ [CHR 0x0A]) (entry_lines (k, v)))"
  using replace_newlines_lines[of "k @ '' = ''" v]
  by (simp add: entry_lines_def entry_line_def value_lines_def)

lemma entries_text_lines:
  "concat (map (\<lambda>(k, v). k @ '' = '' @ replace_newlines v @ [CHR 0x0A]) d) =
   concat (map (\<lambda>l. l @ [CHR 0x0A]) (concat (map entry_lines d)))"
proof (induction d)
  case Nil
  show ?case by simp
next
  case (Cons kv d)
  obtain k v where kv: "kv = (k, v)" by (cases kv)
  show ?case
    using Cons entry_text_lines[of k v] by (simp add: kv)
qed

lemma write_section_lines:
  "write_section n d = concat (map (\<lambda>l. l @ [CHR 0x0A]) (section_lines n d))"
  unfolding write_section_def section_lines_def entries_text_lines by simp

lemma config_write_lines:
  "config_write c = concat (map (\<lambda>l. l @ [CHR 0x0A]) (config_lines c))"
proof -
  have "concat (map (\<lambda>(n, items). write_section n items) secs) =
        concat (map (\<lambda>l. l @ [CHR 0x0A]) (concat (map (\<lambda>(n, d). section_lines n d) secs)))" for secs
    by (induction secs) (auto simp: write_section_lines)
  then show ?thesis
    by (simp add: config_write_def config_lines_def write_section_lines)
qed

lemma file_lines_text:
  assumes "\<forall>l \<in> set ls. no_line_break l"
  shows "file_lines (concat (map (\<lambda>l. l @ [CHR 0x0A]) ls)) = ls"
proof -
  from assms have "CHR 0x0D \<notin> set (concat (map (\<lambda>l. l @ [CHR 0x0A]) ls))"
    by (auto simp: no_line_break_def)
  then have "universal_newlines (concat (map (\<lambda>l. l @ [CHR 0x0A]) ls)) = concat (map (\<lambda>l. l @ [CHR 0x0A]) ls)"
    by (rule universal_newlines_id)
  moreover from assms have "lines_acc [] (concat (map (\<lambda>l. l @ [CHR 0x0A]) ls)) = ls"
    by (intro lines_acc_lines) (auto simp: no_line_break_def)
  ultimately show ?thesis
    by (simp add: file_lines_def)
qed

lemma wf_value_lines: "wf_value v \<Longrightarrow> l \<in> set (value_lines v) \<Longrightarrow> no_line_break l"
  by (auto simp: wf_value_def no_line_break_def value_lines_def dest: split_on_no_sep)

lemma entry_lines_no_break:
  assumes "wf_entry k v" and "l \<in> set (entry_lines (k, v))"
  shows "no_line_break l"
proof -
  from assms(1) have k: "no_line_break k" and v: "wf_value v"
    by (simp_all add: wf_entry_def wf_key_def)
  have hd: "hd (value_lines v) \<in> set (value_lines v)"
    using value_lines_Cons[of v] by (metis list.set_intros(1))
  have tl: "x \<in> set (tl (value_lines v)) \<Longrightarrow> x \<in> set (value_lines v)" for x
    using value_lines_Cons[of v] by (metis list.set_intros(2))
  from assms(2) consider "l = k @ '' = '' @ hd (value_lines v)"
    | x where "x \<in> set (tl (value_lines v))" "l = CHR 0x09 # x"
    by (auto simp: entry_lines_def entry_line_def)
  then show ?thesis
  proof cases
    case 1
    with k wf_value_lines[OF v hd] show ?thesis
      by (simp add: no_line_break_def)
  next
    case 2
    with wf_value_lines[OF v tl] show ?thesis
      by (simp add: no_line_break_def)
  qed
qed

lemma section_lines_no_break:
  assumes "no_line_break n" and "wf_dict d" and "l \<in> set (section_lines n d)"
  shows "no_line_break l"
proof -
  from assms(3) consider "l = ''['' @ n @ '']''" | "l = []"
    | kv where "kv \<in> set d" "l \<in> set (entry_lines kv)"
    by (auto simp: section_lines_def)
  then show ?thesis
  proof cases
    case 1
    with assms(1) show ?thesis by (simp add: no_line_break_def)
  next
    case 2
    then show ?thesis by (simp add: no_line_break_def)
  next
    case 3
    obtain k v where kv: "kv = (k, v)" by (cases kv)
    with 3 assms(2) have "wf_entry k v" by (auto simp: wf_dict_def)
    with 3 kv show ?thesis by (auto intro: entry_lines_no_break)
  qed
qed

lemma config_lines_no_break:
  assumes "wf_config c" and "l \<in> set (config_lines c)"
  shows "no_line_break l"
proof -
  have d: "no_line_break DEFAULTSECT"
    by (simp add: DEFAULTSECT_def no_line_break_def)
  from assms(2) consider "l \<in> set (section_lines DEFAULTSECT (defaults c))"
    | n d where "(n, d) \<in> set (sections c)" "l \<in> set (section_lines n d)"
    by (auto simp: config_lines_def split: if_splits)
  then show ?thesis
  proof cases
    case 1
    with assms(1) d show ?thesis
      by (auto simp: wf_config_def intro: section_lines_no_break)
  next
    case 2
    with assms(1) have "no_line_break n" "wf_dict d"
      by (auto simp: wf_config_def wf_section_name_def)
    with 2 show ?thesis
      by (auto intro: section_lines_no_break)
  qed
qed

lemma file_lines_config_write: "wf_config c \<Longrightarrow> file_lines (config_write c) = config_lines c"
  unfolding config_write_lines
  by (rule file_lines_text) (auto intro: config_lines_no_break)

subsection \<open>What is joined\<close>

lemma join_snoc_empty: "ls \<noteq> [] \<Longrightarrow> join sep (ls @ [[]]) = join sep ls @ sep"
  by (induction sep ls rule: join.induct) simp_all

lemma join_value_lines: "rstrip v = v \<Longrightarrow> join_value (value_lines v) = v"
  by (simp add: join_value_def value_lines_def)

lemma join_value_lines_blank: "rstrip v = v \<Longrightarrow> join_value (value_lines v @ [[]]) = v"
  by (simp add: join_value_def value_lines_def join_snoc_empty rstrip_snoc)

lemma join_raw_dict:
  assumes "\<forall>kv \<in> set d. rstrip (snd kv) = snd kv"
  shows "map (\<lambda>(k, ls). (k, join_value ls)) (raw_dict d) = d"
  using assms by (induction d) (auto simp: join_value_lines)

lemma join_close_dict:
  assumes "\<forall>kv \<in> set d. rstrip (snd kv) = snd kv"
  shows "map (\<lambda>(k, ls). (k, join_value ls)) (close_dict (raw_dict d)) = d"
proof (cases "d = []")
  case True
  then show ?thesis by (simp add: close_dict_def)
next
  case False
  then have d: "d = butlast d @ [last d]" by simp
  have b: "butlast (raw_dict d) = raw_dict (butlast d)"
    by (simp add: raw_dict_def map_butlast)
  have l: "last (raw_dict d) = (fst (last d), value_lines (snd (last d)))"
    using False by (simp add: raw_dict_def last_map)
  from assms have 1: "map (\<lambda>(k, ls). (k, join_value ls)) (raw_dict (butlast d)) = butlast d"
    by (intro join_raw_dict) (auto dest: in_set_butlastD)
  from assms False have 2: "join_value (value_lines (snd (last d)) @ [[]]) = snd (last d)"
    by (intro join_value_lines_blank) simp
  have "map (\<lambda>(k, ls). (k, join_value ls)) (close_dict (raw_dict d)) = butlast d @ [last d]"
    using False by (simp add: close_dict_def b l 1 2)
  with d show ?thesis by simp
qed

lemma wf_dict_rstrip: "wf_dict d \<Longrightarrow> \<forall>kv \<in> set d. rstrip (snd kv) = snd kv"
  by (auto simp: wf_dict_def wf_entry_def wf_value_def)

subsection \<open>Reading back what was written\<close>

lemma read_lines_config_lines:
  assumes "wf_config c"
  shows "\<exists>p. read_lines parser_init (config_lines c) = Inr p \<and> \<not> e p \<and>
             p_defaults p = close_dict (raw_dict (defaults c)) \<and>
             p_sections p = map (\<lambda>(n, d). (n, close_dict (raw_dict d))) (sections c)"
proof -
  let ?secs = "concat (map (\<lambda>(n, d). section_lines n d) (sections c))"
  from assms have ds: "distinct (map fst (sections c))"
    and ws: "\<forall>(n, d) \<in> set (sections c). wf_section_name n \<and> wf_dict d"
    and wd: "wf_dict (defaults c)"
    by (simp_all add: wf_config_def)
  show ?thesis
  proof (cases "defaults c = []")
    case True
    from read_lines_sections[OF ds ws, of parser_init]
    obtain p where "read_lines parser_init ?secs = Inr p"
      "p_sections p = map (\<lambda>(n, d). (n, close_dict (raw_dict d))) (sections c)"
      "p_defaults p = []" "e p = False"
      by (auto simp: parser_init_def)
    with True show ?thesis
      by (simp add: config_lines_def close_dict_def)
  next
    case False
    define p1 where "p1 = parser_init\<lparr>p_defaults := close_dict (raw_dict (defaults c)),
        sectname := Some DEFAULTSECT, optname := last_key (defaults c), indent_level := 0\<rparr>"
    have 1: "read_lines parser_init (section_lines DEFAULTSECT (defaults c)) = Inr p1"
      unfolding p1_def using _ _ wd by (rule read_lines_default_section) (simp_all add: parser_init_def)
    from read_lines_sections[OF ds ws, of p1]
    obtain p where "read_lines p1 ?secs = Inr p"
      "p_sections p = map (\<lambda>(n, d). (n, close_dict (raw_dict d))) (sections c)"
      "p_defaults p = close_dict (raw_dict (defaults c))" "e p = False"
      by (auto simp: p1_def parser_init_def)
    with 1 False show ?thesis
      by (simp add: config_lines_def read_lines_append)
  qed
qed

lemma config_read_write:
  assumes "wf_config c"
  shows "config_read (config_write c) = Inr c"
proof -
  from read_lines_config_lines[OF assms] obtain p where
    r: "read_lines parser_init (config_lines c) = Inr p" and e: "\<not> e p"
    and d: "p_defaults p = close_dict (raw_dict (defaults c))"
    and s: "p_sections p = map (\<lambda>(n, d). (n, close_dict (raw_dict d))) (sections c)"
    by blast
  from assms have 1: "map (\<lambda>(k, ls). (k, join_value ls)) (close_dict (raw_dict (defaults c))) = defaults c"
    by (intro join_close_dict wf_dict_rstrip) (simp add: wf_config_def)
  have "map (\<lambda>(n, d). (n, map (\<lambda>(k, ls). (k, join_value ls)) d))
          (map (\<lambda>(n, d). (n, close_dict (raw_dict d))) secs) = secs"
    if "\<forall>(n, d) \<in> set secs. wf_dict d" for secs
    using that by (induction secs) (auto simp: join_close_dict wf_dict_rstrip)
  moreover from assms have "\<forall>(n, d) \<in> set (sections c). wf_dict d"
    by (auto simp: wf_config_def)
  ultimately have 2: "map (\<lambda>(n, d). (n, map (\<lambda>(k, ls). (k, join_value ls)) d))
          (map (\<lambda>(n, d). (n, close_dict (raw_dict d))) (sections c)) = sections c"
    by blast
  have "join_multiline_values p = c"
    unfolding join_multiline_values_def d s 1 2 by simp
  with r e show ?thesis
    by (simp add: config_read_def file_lines_config_write[OF assms])
qed

subsection \<open>Updating a well-formed store\<close>

lemma set_update_subset: "set (AList.update k v d) \<subseteq> insert (k, v) (set d)"
  by (induction d) auto

lemma wf_dict_update:
  assumes "wf_dict d" and "wf_entry k v"
  shows "wf_dict (AList.update k v d)"
  using assms set_update_subset[of k v d]
  by (auto simp: wf_dict_def AList.distinct_update)

lemma set_map_entry:
  "(n, x) \<in> set (AList.map_entry s f secs) \<Longrightarrow>
   (n, x) \<in> set secs \<or> (n = s \<and> (\<exists>d. (s, d) \<in> set secs \<and> x = f d))"
  by (induction secs) (auto split: if_splits)

lemma wf_config_empty: "wf_config config_empty"
  by (simp add: wf_config_def config_empty_def wf_dict_def)

lemma wf_config_add_section:
  assumes "wf_config c" and "wf_section_name s" and "\<not> has_section c s"
  shows "wf_config (c\<lparr>sections := sections c @ [(s, [])]\<rparr>)"
  using assms by (auto simp: wf_config_def has_section_def wf_dict_def)

lemma wf_config_set:
  assumes c: "wf_config c" and s: "wf_section_name s" and kv: "wf_entry (lower k) v"
  shows "wf_config (config_set c s k v)"
proof -
  from s have ns: "\<not> (s = [] \<or> s = DEFAULTSECT)"
    by (simp add: wf_section_name_def)
  have "wf_section_name n \<and> wf_dict x"
    if "(n, x) \<in> set (AList.map_entry s (AList.update (lower k) v) (sections c))" for n x
  proof -
    from set_map_entry[OF that] consider "(n, x) \<in> set (sections c)"
      | d where "n = s" "(s, d) \<in> set (sections c)" "x = AList.update (lower k) v d"
      by blast
    then show ?thesis
    proof cases
      case 1
      with c show ?thesis by (auto simp: wf_config_def)
    next
      case 2
      with c have "wf_dict d" by (auto simp: wf_config_def)
      with 2 s kv show ?thesis by (simp add: wf_dict_update)
    qed
  qed
  with c ns show ?thesis
    by (auto simp: wf_config_def config_set_def)
qed

subsection \<open>Looking up what was stored\<close>

lemma map_of_update_same: "map_of (AList.update k v d) k = Some v"
  by (simp add: AList.update_conv')


lemma has_section_map_of: "has_section c s \<longleftrightarrow> map_of (sections c) s \<noteq> None"
  by (simp add: has_section_def map_of_eq_None_iff)

lemma config_get_set_same:
  assumes "has_section c s" and "s \<noteq> []" and "s \<noteq> DEFAULTSECT"
  shows "config_get (config_set c s k v) s k fb = Some v"
proof -
  from assms(1) obtain d where d: "map_of (sections c) s = Some d"
    by (auto simp: has_section_map_of)
  with assms(2,3) show ?thesis
    by (simp add: config_get_def config_set_def map_of_map_entry map_of_update_same)
qed




subsection \<open>What the parser takes for a key\<close>

lemma rstrip_prefix: "\<exists>t. s = rstrip s @ t \<and> (\<forall>c \<in> set t. is_space c)"
proof -
  have "rev s = takeWhile is_space (rev s) @ dropWhile is_space (rev s)"
    by simp
  then have "s = rev (dropWhile is_space (rev s)) @ rev (takeWhile is_space (rev s))"
    by (metis rev_append rev_rev_ident)
  moreover have "\<forall>c \<in> set (rev (takeWhile is_space (rev s))). is_space c"
    by (auto dest: set_takeWhileD)
  ultimately show ?thesis
    unfolding rstrip_def by blast
qed

lemma lstrip_suffix: "\<exists>t. s = t @ lstrip s \<and> (\<forall>c \<in> set t. is_space c)"
proof -
  have "s = takeWhile is_space s @ dropWhile is_space s"
    by simp
  moreover have "\<forall>c \<in> set (takeWhile is_space s). is_space c"
    by (auto dest: set_takeWhileD)
  ultimately show ?thesis
    unfolding lstrip_def by blast
qed

lemma set_rstrip: "set (rstrip s) \<subseteq> set s"
proof -
  from rstrip_prefix[of s] obtain t where "s = rstrip s @ t" by blast
  then have "set s = set (rstrip s) \<union> set t" by (metis set_append)
  then show ?thesis by blast
qed

lemma set_lstrip: "set (lstrip s) \<subseteq> set s"
  unfolding lstrip_def by (auto dest: set_dropWhileD)

lemma set_tl_subset: "set (tl xs) \<subseteq> set xs"
  by (cases xs) auto

lemma set_strip: "set (strip s) \<subseteq> set s"
  unfolding strip_def using set_lstrip[of "rstrip s"] set_rstrip[of s] by blast

lemma rstrip_idem [simp]: "rstrip (rstrip s) = rstrip s"
proof (cases "rstrip s = []")
  case False
  then show ?thesis by (intro rstrip_last rstrip_not_space_last)
qed simp

lemma hd_rstrip: "rstrip s \<noteq> [] \<Longrightarrow> hd (rstrip s) = hd s"
proof -
  assume ne: "rstrip s \<noteq> []"
  from rstrip_prefix[of s] obtain t where "s = rstrip s @ t" by blast
  then have "hd s = hd (rstrip s @ t)" by simp
  with ne show ?thesis by simp
qed

lemma set_tl_tl_append: "set (tl (tl (a @ b))) \<subseteq> set (tl (tl a)) \<union> set b"
  using set_tl_subset[of b] set_tl_subset[of "tl b"] by (cases a; cases "tl a") auto

lemma set_tl_tl_prefix: "set (tl (tl a)) \<subseteq> set (tl (tl (a @ b)))"
  by (cases a; cases "tl a") auto

lemma set_tl_tl_suffix: "a \<noteq> [] \<Longrightarrow> set b \<subseteq> set (tl (tl (a @ c # b)))"
  by (cases a; cases "tl a") auto

lemma stripped_lower [simp]: "stripped (lower s) = stripped s"
  by (cases "s = []") (simp_all add: stripped_iff lower_def hd_map last_map)

lemma set_lower: "set (lower s) = lower_char ` set s"
  by (simp add: lower_def)

lemma lower_char_image [simp]:
  "CHR 0x0A \<in> lower_char ` S \<longleftrightarrow> CHR 0x0A \<in> S"
  "CHR 0x0D \<in> lower_char ` S \<longleftrightarrow> CHR 0x0D \<in> S"
  "CHR '']'' \<in> lower_char ` S \<longleftrightarrow> CHR '']'' \<in> S"
proof -
  have *: "x \<in> lower_char ` S \<longleftrightarrow> x \<in> S" if "\<And>c. lower_char c = x \<longleftrightarrow> c = x" for x
  proof
    assume "x \<in> lower_char ` S"
    then obtain c where "c \<in> S" "lower_char c = x" by auto
    with that show "x \<in> S" by simp
  next
    assume "x \<in> S"
    moreover from that have "lower_char x = x" by simp
    ultimately show "x \<in> lower_char ` S" by (metis image_eqI)
  qed
  show "CHR 0x0A \<in> lower_char ` S \<longleftrightarrow> CHR 0x0A \<in> S" by (rule *) simp
  show "CHR 0x0D \<in> lower_char ` S \<longleftrightarrow> CHR 0x0D \<in> S" by (rule *) simp
  show "CHR '']'' \<in> lower_char ` S \<longleftrightarrow> CHR '']'' \<in> S" by (rule *) simp
qed

lemma no_line_break_lower [simp]: "no_line_break (lower s) = no_line_break s"
  by (simp add: no_line_break_def set_lower)

lemma comment_start_lower [simp]: "comment_start (lower s) = comment_start s"
  by (cases s) (simp_all add: lower_def)

lemma no_line_break_subset: "set t \<subseteq> set s \<Longrightarrow> no_line_break s \<Longrightarrow> no_line_break t"
  by (auto simp: no_line_break_def)

lemma opt_match_Some:
  assumes "opt_match v = Some (option, optval)"
  shows "\<exists>d after. v = takeWhile (\<lambda>c. \<not> is_delim c) v @ d # after \<and>
           option = rstrip (takeWhile (\<lambda>c. \<not> is_delim c) v) \<and> optval = lstrip after"
proof -
  from assms obtain d after where da: "dropWhile (\<lambda>c. \<not> is_delim c) v = d # after"
    by (cases "dropWhile (\<lambda>c. \<not> is_delim c) v") (simp_all add: opt_match_def)
  have "v = takeWhile (\<lambda>c. \<not> is_delim c) v @ dropWhile (\<lambda>c. \<not> is_delim c) v"
    by simp
  with da have "v = takeWhile (\<lambda>c. \<not> is_delim c) v @ d # after"
    by simp
  moreover from assms da have "option = rstrip (takeWhile (\<lambda>c. \<not> is_delim c) v)" "optval = lstrip after"
    by (simp_all add: opt_match_def rstrip_def lstrip_def)
  ultimately show ?thesis by blast
qed

lemma opt_match_wf:
  assumes om: "opt_match v = Some (option, optval)" and st: "stripped v" and nb: "no_line_break v"
    and nc: "\<not> comment_start v" and sm: "sect_match v = None" and ne: "option \<noteq> []"
  shows "wf_raw_entry (lower (rstrip option)) [strip optval]"
proof -
  define pre where "pre = takeWhile (\<lambda>c. \<not> is_delim c) v"
  from opt_match_Some[OF om] obtain d after where v: "v = pre @ d # after"
    and o: "option = rstrip pre" and ov: "optval = lstrip after"
    unfolding pre_def by blast
  define k where "k = lower option"
  define l where "l = strip optval"
  from ne o have pne: "pre \<noteq> []" by auto
  have vne: "v \<noteq> []" by (subst v) simp
  have hdv: "hd v = hd pre" using pne by (subst v) simp
  from ne o have hdo: "hd option = hd pre" by (simp add: hd_rstrip)
  from st vne have hs: "\<not> is_space (hd v)" by (simp add: stripped_iff)
  have so: "set option \<subseteq> set pre" unfolding o by (rule set_rstrip)
  have sp: "set pre \<subseteq> set v" by (subst v) auto
  have sl: "set l \<subseteq> set after"
    unfolding l_def ov using set_strip[of "lstrip after"] set_lstrip[of after] by blast
  have sa: "set after \<subseteq> set v" by (subst v) auto
  have nd: "\<forall>c \<in> set option. \<not> is_delim c"
    using so by (auto simp: pre_def dest: set_takeWhileD)
  have stro: "stripped option"
    using ne hdo hdv hs rstrip_not_space_last[of pre] o by (simp add: stripped_iff)
  have nco: "\<not> comment_start option"
    using ne nc vne hdo hdv by (cases option; cases v) simp_all
  have wk: "wf_key k"
    unfolding wf_key_def k_def
    using ne stro nd nco no_line_break_subset[OF _ nb, of option] so sp
    by (auto simp: set_lower)
  have stl: "stripped l" by (simp add: l_def)
  have nbl: "no_line_break l"
    using sl sa nb by (intro no_line_break_subset[OF _ nb]) auto
  have "sect_match (strip (k @ '' = '' @ l)) = None"
  proof -
    define line where "line = strip (k @ '' = '' @ l)"
    have line: "line = k @ (if l = [] then '' ='' else '' = '' @ l)"
      unfolding line_def using strip_entry_line[OF wk stl] by simp
    have kne: "k \<noteq> []" using ne by (simp add: k_def)
    have nl: "CHR 0x0A \<notin> set line"
      using wk nbl by (auto simp: line wf_key_def no_line_break_def)
    have "hd line \<noteq> CHR ''['' \<or> CHR '']'' \<notin> set (tl (tl line))"
    proof (cases "hd v = CHR ''[''")
      case False
      have "hd line = lower_char (hd v)"
        using kne ne hdo hdv by (simp add: line k_def lower_def hd_map)
      with False show ?thesis by simp
    next
      case True
      from nb have "CHR 0x0A \<notin> set v" by (simp add: no_line_break_def)
      from sm[unfolded sect_match_None_iff[OF this]] vne True
      have nv: "CHR '']'' \<notin> set (tl (tl v))" by simp
      have "set (tl (tl pre)) \<subseteq> set (tl (tl v))"
        by (subst v) (rule set_tl_tl_prefix)
      with nv have n1: "CHR '']'' \<notin> set (tl (tl pre))" by blast
      from rstrip_prefix[of pre] obtain t where "pre = rstrip pre @ t" by blast
      then have t: "pre = option @ t" unfolding o .
      have "set (tl (tl option)) \<subseteq> set (tl (tl pre))"
        by (subst t) (rule set_tl_tl_prefix)
      with n1 have "CHR '']'' \<notin> set (tl (tl option))" by blast
      then have n2: "CHR '']'' \<notin> set (tl (tl k))"
        by (simp add: k_def lower_def map_tl[symmetric] del: map_tl)
      have "set after \<subseteq> set (tl (tl v))"
        using pne by (subst v) (rule set_tl_tl_suffix)
      with nv sl have n3: "CHR '']'' \<notin> set l" by blast
      have "set (tl (tl line)) \<subseteq> set (tl (tl k)) \<union> set (if l = [] then '' ='' else '' = '' @ l)"
        unfolding line by (rule set_tl_tl_append)
      with n2 n3 show ?thesis by (auto split: if_splits)
    qed
    then show ?thesis
      unfolding line_def[symmetric] sect_match_None_iff[OF nl] by simp
  qed
  moreover have "rstrip option = option" using o by simp
  ultimately show ?thesis
    using wk stl nbl by (simp add: wf_raw_entry_def k_def l_def)
qed

lemma sect_match_Some:
  assumes "sect_match v = Some h" and "no_line_break v"
  shows "h \<noteq> [] \<and> no_line_break h"
proof -
  from assms(1) obtain c rest where v: "v = c # rest"
    by (cases v) (simp_all add: sect_match_def)
  define r where "r = dropWhile (\<lambda>x. x \<noteq> CHR '']'') (rev (takeWhile (\<lambda>x. x \<noteq> CHR 0x0A) rest))"
  from assms(1) have sm: "(if c \<noteq> CHR ''['' then None
          else (case r of [] \<Rightarrow> None | _ # h \<Rightarrow> if h = [] then None else Some (rev h))) = Some h"
    unfolding v sect_match_def r_def by simp
  then obtain x h' where r: "r = x # h'"
    by (cases r) (simp_all split: if_splits)
  with sm have h: "h = rev h'" and hne: "h' \<noteq> []"
    by (auto split: if_splits)
  have "set h' \<subseteq> set r" using r by auto
  also have "\<dots> \<subseteq> set (rev (takeWhile (\<lambda>x. x \<noteq> CHR 0x0A) rest))"
    unfolding r_def by (auto dest: set_dropWhileD)
  also have "\<dots> \<subseteq> set rest" by (auto dest: set_takeWhileD)
  finally have "set h \<subseteq> set v" using h v by auto
  then have "no_line_break h" using assms(2) by (rule no_line_break_subset)
  with hne h show ?thesis
    by simp
qed

subsection \<open>What the parser holds\<close>

lemma wf_raw_dict_update:
  assumes "wf_raw_dict d" and "wf_raw_entry k ls"
  shows "wf_raw_dict (AList.update k ls d)"
  using assms set_update_subset[of k ls d]
  by (auto simp: wf_raw_dict_def AList.distinct_update)

lemma wf_raw_entry_snoc:
  assumes "wf_raw_entry k ls" and "stripped l" and "no_line_break l" and "\<not> comment_start l"
  shows "wf_raw_entry k (ls @ [l])"
  using assms by (auto simp: wf_raw_entry_def)

lemma wf_raw_dict_map_entry:
  assumes "wf_raw_dict d" and "stripped l" and "no_line_break l" and "\<not> comment_start l"
  shows "wf_raw_dict (AList.map_entry k (\<lambda>ls. ls @ [l]) d)"
proof -
  have "wf_raw_entry k' x" if "(k', x) \<in> set (AList.map_entry k (\<lambda>ls. ls @ [l]) d)" for k' x
  proof -
    from set_map_entry[OF that] consider "(k', x) \<in> set d"
      | ls where "k' = k" "(k, ls) \<in> set d" "x = ls @ [l]"
      by blast
    then show ?thesis
    proof cases
      case 1
      with assms(1) show ?thesis by (auto simp: wf_raw_dict_def)
    next
      case 2
      with assms(1) have "wf_raw_entry k ls" by (auto simp: wf_raw_dict_def)
      with 2 assms(2-4) show ?thesis by (simp add: wf_raw_entry_snoc)
    qed
  qed
  with assms(1) show ?thesis
    by (auto simp: wf_raw_dict_def)
qed

lemma wf_parser_fields [simp]:
  "wf_parser (p\<lparr>indent_level := i\<rparr>) = wf_parser p"
  "wf_parser (p\<lparr>optname := on\<rparr>) = wf_parser p"
  "wf_parser (p\<lparr>sectname := sn\<rparr>) = wf_parser p"
  by (simp_all add: wf_parser_def)

lemma wf_parser_e: "e p \<Longrightarrow> wf_parser p"
  by (simp add: wf_parser_def)

lemma wf_parser_e_True [simp]: "wf_parser (p\<lparr>e := True\<rparr>)"
  by (simp add: wf_parser_def)

lemma cursect_update_e [simp]:
  "cursect_update f (p\<lparr>e := b\<rparr>) = (cursect_update f p)\<lparr>e := b\<rparr>"
  by (simp add: cursect_update_def split: option.splits)

lemma wf_parser_init: "wf_parser parser_init"
  by (simp add: wf_parser_def parser_init_def wf_raw_dict_def)

lemma wf_parser_cursect_update:
  assumes p: "wf_parser p" and f: "\<And>d. wf_raw_dict d \<Longrightarrow> wf_raw_dict (f d)"
  shows "wf_parser (cursect_update f p)"
proof (cases "sectname p")
  case None
  with p show ?thesis by (simp add: cursect_update_def)
next
  case (Some n)
  show ?thesis
  proof (cases "n = DEFAULTSECT")
    case True
    with Some p f show ?thesis
      by (simp add: cursect_update_def wf_parser_def)
  next
    case False
    have "wf_section_name m \<and> wf_raw_dict x"
      if "\<not> e p" and "(m, x) \<in> set (AList.map_entry n f (p_sections p))" for m x
    proof -
      from set_map_entry[OF that(2)] consider "(m, x) \<in> set (p_sections p)"
        | d where "m = n" "(n, d) \<in> set (p_sections p)" "x = f d"
        by blast
      then show ?thesis
      proof cases
        case 1
        with p that(1) show ?thesis by (auto simp: wf_parser_def)
      next
        case 2
        with p that(1) have "wf_section_name n" "wf_raw_dict d" by (auto simp: wf_parser_def)
        with 2 f show ?thesis by simp
      qed
    qed
    with Some False p show ?thesis
      by (auto simp: cursect_update_def wf_parser_def)
  qed
qed

lemma wf_parser_append:
  assumes "wf_parser p" and "stripped l" and "no_line_break l" and "\<not> comment_start l"
  shows "wf_parser (cursect_update (AList.map_entry k (\<lambda>ls. ls @ [l])) p)"
  using assms(1) by (rule wf_parser_cursect_update) (simp add: wf_raw_dict_map_entry assms(2-4))

lemma wf_parser_header:
  assumes "wf_parser p" and "sect_match v = Some h" and "no_line_break v"
    and "h \<notin> set (map fst (p_sections p))" and "h \<noteq> DEFAULTSECT"
  shows "wf_parser (p\<lparr>p_sections := p_sections p @ [(h, [])]\<rparr>)"
  using assms sect_match_Some[OF assms(2,3)]
  by (auto simp: wf_parser_def wf_section_name_def wf_raw_dict_def)

lemma wf_parser_option:
  assumes "wf_parser p" and "opt_match v = Some (option, optval)" and "stripped v"
    and "no_line_break v" and "\<not> comment_start v" and "sect_match v = None"
  shows "wf_parser (cursect_update (AList.update (lower (rstrip option)) [strip optval])
                      (if option = [] then p\<lparr>e := True\<rparr> else p))"
proof (cases "option = []")
  case True
  then show ?thesis by (simp add: wf_parser_e)
next
  case False
  have "wf_raw_entry (lower (rstrip option)) [strip optval]"
    using assms(2-6) False by (rule opt_match_wf)
  then have "wf_parser (cursect_update (AList.update (lower (rstrip option)) [strip optval]) p)"
    by (intro wf_parser_cursect_update assms(1) wf_raw_dict_update)
  with False show ?thesis by simp
qed

lemma read_line_wf:
  assumes r: "read_line p line = Inr p'" and p: "wf_parser p" and nb: "no_line_break line"
  shows "wf_parser p'"
proof -
  define v where "v = (if is_comment line then [] else strip line)"
  show ?thesis
  proof (cases "v = []")
    case True
    have "wf_parser (cursect_update (AList.map_entry k (\<lambda>ls. ls @ [[]])) p)" for k
      using p by (rule wf_parser_append) (simp_all add: stripped_iff no_line_break_def)
    with r True p show ?thesis
      unfolding read_line_def v_def[symmetric] by (auto simp: Let_def split: if_splits)
  next
    case False
    then have v: "v = strip line" and nc: "\<not> comment_start v"
      by (auto simp: v_def is_comment_iff split: if_splits)
    have st: "stripped v" by (simp add: v)
    have nbv: "no_line_break v"
      unfolding v using set_strip nb by (rule no_line_break_subset)
    have 1: "wf_parser (cursect_update (AList.map_entry k (\<lambda>ls. ls @ [v])) p)" for k
      using p st nbv nc by (rule wf_parser_append)
    have 2: "wf_parser (p\<lparr>indent_level := i, p_sections := p_sections p @ [(h, [])]\<rparr>)"
      if "sect_match v = Some h" "h \<notin> set (map fst (p_sections p))" "h \<noteq> DEFAULTSECT" for h i
      using wf_parser_header[of "p\<lparr>indent_level := i\<rparr>" v h] p that nbv by simp
    have 3: "wf_parser (cursect_update (AList.update (lower (rstrip option)) [strip optval])
                      (if option = [] then p\<lparr>e := True\<rparr> else p))"
      if "opt_match v = Some (option, optval)" "sect_match v = None" for option optval
      using p that(1) st nbv nc that(2) by (rule wf_parser_option)
    show ?thesis
    proof (cases "sectname p \<noteq> None \<and> optname_set p \<and> length (takeWhile is_space line) > indent_level p")
      case True
      with r False 1 show ?thesis
        unfolding read_line_def v_def[symmetric] by (auto simp: Let_def)
    next
      case nocont: False
      show ?thesis
      proof (cases "sect_match v")
        case (Some h)
        with r False nocont 2[OF Some] p show ?thesis
          unfolding read_line_def v_def[symmetric]
          by (auto simp: Let_def split: if_splits)
      next
        case None
        show ?thesis
        proof (cases "opt_match v")
          case N: None
          with r False nocont None show ?thesis
            unfolding read_line_def v_def[symmetric]
            by (auto simp: Let_def wf_parser_e split: if_splits)
        next
          case (Some ov)
          obtain option optval where ov: "ov = (option, optval)" by (cases ov)
          from 3[OF Some[unfolded ov] None]
          have "option \<noteq> [] \<Longrightarrow>
                wf_parser (cursect_update (AList.update (lower (rstrip option)) [strip optval]) p)"
            by simp
          with r False nocont None Some ov show ?thesis
            unfolding read_line_def v_def[symmetric]
            by (auto simp: Let_def split: if_splits)
        qed
      qed
    qed
  qed
qed

lemma read_lines_wf:
  assumes "read_lines p ls = Inr p'" and "wf_parser p" and "\<forall>l \<in> set ls. no_line_break l"
  shows "wf_parser p'"
  using assms
proof (induction ls arbitrary: p)
  case Nil
  then show ?case by simp
next
  case (Cons l ls)
  from Cons.prems(1) obtain p1 where 1: "read_line p l = Inr p1" and 2: "read_lines p1 ls = Inr p'"
    by (cases "read_line p l") simp_all
  from 1 Cons.prems(2,3) have "wf_parser p1"
    by (intro read_line_wf[of p l p1]) simp_all
  with 2 Cons.prems(3) show ?case
    by (intro Cons.IH[of p1]) simp_all
qed

subsection \<open>What the parser returns\<close>

lemma join_snoc: "ls \<noteq> [] \<Longrightarrow> join sep (ls @ [l]) = join sep ls @ sep @ l"
  by (induction sep ls rule: join.induct) simp_all

lemma value_lines_join_value:
  assumes "ls \<noteq> []" and "\<forall>l \<in> set ls. stripped l \<and> no_line_break l"
  shows "\<exists>n. 0 < n \<and> n \<le> length ls \<and> value_lines (join_value ls) = take n ls"
  using assms
proof (induction ls rule: rev_induct)
  case Nil
  then show ?case by simp
next
  case (snoc l ls)
  from snoc.prems have l: "stripped l" "CHR 0x0A \<notin> set l"
    by (simp_all add: no_line_break_def)
  show ?case
  proof (cases "ls = []")
    case True
    have "rstrip l = l"
      using l(1) by (cases "l = []") (simp_all add: stripped_iff rstrip_last)
    with l(2) have "value_lines (join_value [l]) = [l]"
      by (simp add: join_value_def value_lines_def split_on_no_sep_id)
    with True show ?thesis by auto
  next
    case False
    show ?thesis
    proof (cases "l = []")
      case True
      have "join_value (ls @ [l]) = join_value ls"
        using False True by (simp add: join_value_def join_snoc rstrip_snoc)
      moreover from snoc.IH[OF False] snoc.prems(2)
      obtain n where "0 < n" "n \<le> length ls" "value_lines (join_value ls) = take n ls"
        by auto
      ultimately have "0 < n \<and> n \<le> length (ls @ [l]) \<and> value_lines (join_value (ls @ [l])) = take n (ls @ [l])"
        by simp
      then show ?thesis by blast
    next
      case ne: False
      with l(1) have "\<not> is_space (last l)" by (simp add: stripped_iff)
      with ne have "rstrip ((join [CHR 0x0A] ls @ [CHR 0x0A]) @ l) = (join [CHR 0x0A] ls @ [CHR 0x0A]) @ l"
        by (rule rstrip_append_last)
      then have "join_value (ls @ [l]) = join [CHR 0x0A] (ls @ [l])"
        using False by (simp add: join_value_def join_snoc)
      moreover have "split_on CHR 0x0A (join [CHR 0x0A] (ls @ [l])) = ls @ [l]"
        using snoc.prems(2) by (intro split_on_join) (auto simp: no_line_break_def)
      ultimately have "value_lines (join_value (ls @ [l])) = take (length (ls @ [l])) (ls @ [l])"
        by (simp add: value_lines_def)
      then show ?thesis by (metis length_greater_0_conv order_refl snoc_eq_iff_butlast)
    qed
  qed
qed

lemma wf_raw_entry_join:
  assumes "wf_raw_entry k ls"
  shows "wf_entry k (join_value ls)"
proof -
  from assms have ne: "ls \<noteq> []" and all: "\<forall>l \<in> set ls. stripped l \<and> no_line_break l"
    and tl: "\<forall>l \<in> set (tl ls). \<not> comment_start l" and k: "wf_key k"
    and sm: "sect_match (strip (k @ '' = '' @ hd ls)) = None"
    by (simp_all add: wf_raw_entry_def)
  from value_lines_join_value[OF ne all] obtain n where n: "0 < n" "n \<le> length ls"
    and vl: "value_lines (join_value ls) = take n ls"
    by blast
  have 1: "\<forall>l \<in> set (value_lines (join_value ls)). stripped l \<and> CHR 0x0D \<notin> set l"
    unfolding vl using all by (auto simp: no_line_break_def dest: in_set_takeD)
  have 2: "\<forall>l \<in> set (tl (value_lines (join_value ls))). \<not> comment_start l"
    unfolding vl tl_take using tl by (auto dest: in_set_takeD)
  have 3: "rstrip (join_value ls) = join_value ls"
    by (simp add: join_value_def)
  have "hd (take n ls) = hd ls"
    using n ne by (cases ls; cases n) simp_all
  then have 4: "entry_line k (join_value ls) = k @ '' = '' @ hd ls"
    by (simp add: entry_line_def vl)
  show ?thesis
    unfolding wf_entry_def wf_value_def 4 using k 1 2 3 sm by simp
qed

lemma fst_comp_map_snd [simp]: "fst \<circ> (\<lambda>(k, x). (k, f x)) = fst"
  by (auto simp: fun_eq_iff)

lemma wf_raw_dict_join:
  assumes "wf_raw_dict d"
  shows "wf_dict (map (\<lambda>(k, ls). (k, join_value ls)) d)"
  using assms by (auto simp: wf_dict_def wf_raw_dict_def wf_raw_entry_join)

lemma wf_parser_join:
  assumes "wf_parser p" and "\<not> e p"
  shows "wf_config (join_multiline_values p)"
  using assms
  by (auto simp: wf_config_def join_multiline_values_def wf_parser_def wf_raw_dict_join)

lemma config_read_wf:
  assumes "config_read txt = Inr c"
  shows "wf_config c"
proof -
  from assms obtain p where r: "read_lines parser_init (file_lines txt) = Inr p"
    and e: "\<not> e p" and c: "c = join_multiline_values p"
    by (auto simp: config_read_def split: sum.splits if_splits)
  from r wf_parser_init have "wf_parser p"
    by (rule read_lines_wf) (simp add: file_lines_no_break)
  with e show ?thesis
    unfolding c by (intro wf_parser_join)
qed

subsection \<open>The store of a world\<close>

lemma config_read_file_wf:
  assumes "config_read_file w = Inr c"
  shows "wf_config c"
  using assms
  by (auto simp: config_read_file_def wf_config_empty config_read_wf
           split: option.splits if_splits sum.splits)

lemma config_read_file_missing: "files w config_ini = None \<Longrightarrow> config_read_file w = Inr config_empty"
  by (simp add: config_read_file_def)

lemma config_read_file_written:
  assumes "wf_config c"
  shows "config_read_file (w\<lparr>files := (files w)(config_ini \<mapsto> config_write c),
                              undecodable := (undecodable w)(config_ini := False)\<rparr>) = Inr c"
  using assms by (simp add: config_read_file_def config_read_write)

lemma config_read_file_cong:
  "files w config_ini = files w' config_ini \<Longrightarrow> undecodable w config_ini = undecodable w' config_ini \<Longrightarrow>
   config_read_file w = config_read_file w'"
  by (simp add: config_read_file_def split: option.splits)

lemma get_config_value_cong:
  "files w config_ini = files w' config_ini \<Longrightarrow> undecodable w config_ini = undecodable w' config_ini \<Longrightarrow>
   fst (get_config_value s k fb w) = fst (get_config_value s k fb w')"
  using config_read_file_cong[of w w'] by (simp add: get_config_value_def split: sum.splits)

lemma config_get_empty [simp]: "config_get config_empty s k fb = fb"
  by (simp add: config_get_def config_empty_def)

lemma get_config_value_read:
  assumes "config_read_file w = Inr c"
  shows "fst (get_config_value s k fb w) = Inr (config_get c s k fb)"
proof (cases "files w config_ini")
  case None
  with assms have "c = config_empty" by (simp add: config_read_file_def)
  with None show ?thesis by (simp add: get_config_value_def)
next
  case (Some t)
  with assms show ?thesis by (simp add: get_config_value_def)
qed

lemma set_config_value_read:
  assumes "config_read_file w = Inr c" and "(if has_section c s then Inr c else add_section c s) = Inr c1"
  shows "set_config_value s k v w =
           (if writable w config_ini
            then (Inr True, w\<lparr>files := (files w)(config_ini \<mapsto> config_write (config_set c1 s k v)),
                              undecodable := (undecodable w)(config_ini := False)\<rparr>)
            else (Inr False, py_print (PrintExc ''Error writing to config: {e}'' OSError) w))"
  by (simp add: set_config_value_def Let_def assms)

lemma set_config_value_True:
  assumes "fst (set_config_value s k v w) = Inr True"
  shows "\<exists>c. config_read_file w = Inr c \<and> (has_section c s \<or> s \<noteq> DEFAULTSECT) \<and> writable w config_ini \<and>
             snd (set_config_value s k v w) =
               w\<lparr>files := (files w)(config_ini \<mapsto> config_write (store_after c s k v)),
                 undecodable := (undecodable w)(config_ini := False)\<rparr>"
proof -
  from assms obtain c where c: "config_read_file w = Inr c"
    by (cases "config_read_file w") (auto simp: set_config_value_def Let_def split: if_splits)
  define c1 where "c1 = (if has_section c s then c else c\<lparr>sections := sections c @ [(s, [])]\<rparr>)"
  show ?thesis
  proof (cases "has_section c s \<or> s \<noteq> DEFAULTSECT")
    case False
    then have "(if has_section c s then Inr c else add_section c s) = Inl ValueError"
      by (auto simp: add_section_def)
    then have "fst (set_config_value s k v w) = Inl ValueError"
      unfolding set_config_value_def Let_def c by (simp add: is_configparser_Error_def)
    with assms show ?thesis by simp
  next
    case True
    then have a: "(if has_section c s then Inr c else add_section c s) = Inr c1"
      by (auto simp: c1_def add_section_def has_section_def)
    note r = set_config_value_read[OF c a, of k v]
    from assms have wr: "writable w config_ini"
      unfolding r by (simp split: if_splits)
    have "snd (set_config_value s k v w) =
               w\<lparr>files := (files w)(config_ini \<mapsto> config_write (store_after c s k v)),
                 undecodable := (undecodable w)(config_ini := False)\<rparr>"
      unfolding r using wr by (simp add: store_after_def c1_def)
    with c True wr show ?thesis by blast
  qed
qed

lemma set_config_value_succeeds:
  assumes "config_read_file w = Inr c" and "writable w config_ini" and "s \<noteq> DEFAULTSECT"
  shows "fst (set_config_value s k v w) = Inr True"
proof -
  from assms(3) have "(if has_section c s then Inr c else add_section c s) =
      Inr (if has_section c s then c else c\<lparr>sections := sections c @ [(s, [])]\<rparr>)"
    by (auto simp: add_section_def has_section_def)
  from set_config_value_read[OF assms(1) this] assms(2) show ?thesis
    by simp
qed

lemma set_config_value_not_True:
  assumes "fst (set_config_value s k v w) \<noteq> Inr True"
  shows "files (snd (set_config_value s k v w)) = files w \<and>
         undecodable (snd (set_config_value s k v w)) = undecodable w"
  using assms
  by (auto simp: set_config_value_def Let_def split: sum.splits if_splits)

lemma wf_config_no_default: "wf_config c \<Longrightarrow> \<not> has_section c DEFAULTSECT"
  by (auto simp: wf_config_def has_section_def wf_section_name_def)

lemma wf_store_after:
  assumes "wf_config c" and "s \<noteq> []" and "no_line_break s" and "has_section c s \<or> s \<noteq> DEFAULTSECT"
    and "wf_entry (lower k) v"
  shows "wf_config (store_after c s k v)"
proof -
  from assms(1,4) have "s \<noteq> DEFAULTSECT"
    using wf_config_no_default by blast
  with assms(2,3) have s: "wf_section_name s"
    by (simp add: wf_section_name_def)
  show ?thesis
    unfolding store_after_def
    using assms(1,5) s by (auto intro!: wf_config_set wf_config_add_section)
qed

lemma has_section_added: "has_section (c\<lparr>sections := sections c @ [(s, [])]\<rparr>) s"
  by (simp add: has_section_def)

lemma config_get_store_after_same:
  assumes "s \<noteq> []" and "s \<noteq> DEFAULTSECT"
  shows "config_get (store_after c s k v) s k fb = Some v"
  unfolding store_after_def using assms
  by (auto intro!: config_get_set_same simp: has_section_added)


subsection \<open>Reading after writing\<close>

lemma set_config_value_stored:
  assumes ok: "fst (set_config_value section key v w) = Inr True"
    and s: "section \<noteq> []" "no_line_break section" and kv: "wf_entry (lower key) v"
  shows "\<exists>c. config_read_file w = Inr c \<and> wf_config c \<and> section \<noteq> DEFAULTSECT \<and>
             config_read_file (snd (set_config_value section key v w)) = Inr (store_after c section key v)"
proof -
  from set_config_value_True[OF ok] obtain c where c: "config_read_file w = Inr c"
    and h: "has_section c section \<or> section \<noteq> DEFAULTSECT"
    and w': "snd (set_config_value section key v w) =
               w\<lparr>files := (files w)(config_ini \<mapsto> config_write (store_after c section key v)),
                 undecodable := (undecodable w)(config_ini := False)\<rparr>"
    by blast
  from c have wf: "wf_config c" by (rule config_read_file_wf)
  with h have nd: "section \<noteq> DEFAULTSECT"
    using wf_config_no_default by blast
  from wf s h kv have "wf_config (store_after c section key v)"
    by (rule wf_store_after)
  then have "config_read_file (snd (set_config_value section key v w)) = Inr (store_after c section key v)"
    unfolding w' by (rule config_read_file_written)
  with c wf nd show ?thesis by blast
qed

lemma get_after_set:
  assumes "fst (set_config_value section key v w) = Inr True"
    and "section \<noteq> []" "no_line_break section" and "wf_entry (lower key) v"
  shows "fst (get_config_value section key fb (snd (set_config_value section key v w))) = Inr (Some v)"
proof -
  from set_config_value_stored[OF assms] obtain c where nd: "section \<noteq> DEFAULTSECT"
    and r: "config_read_file (snd (set_config_value section key v w)) = Inr (store_after c section key v)"
    by blast
  show ?thesis
    unfolding get_config_value_read[OF r] using assms(2) nd
    by (simp add: config_get_store_after_same)
qed





subsection \<open>What a write leaves alone\<close>






subsection \<open>The pop-up toggle\<close>

lemma pause_undecodable [simp]: "undecodable (snd (pause b w)) = undecodable w"
  by (simp add: pause_def py_input_def py_print_def split: list.splits)

lemma wf_entry_show_gui:
  "wf_entry (lower ''SHOW_GUI'') ''true''" "wf_entry (lower ''SHOW_GUI'') ''false''"
  by code_simp+

lemma toggle_gui_store:
  assumes "toggle_gui_succeeds w"
  shows "\<exists>cur. fst (get_config_value ''Settings'' ''SHOW_GUI'' (Some ''true'') w) = Inr (Some cur) \<and>
           (\<forall>fb. fst (get_config_value ''Settings'' ''SHOW_GUI'' fb (snd (toggle_gui w))) =
                   Inr (Some (if lower cur = ''true'' then ''false'' else ''true'')))"
proof -
  let ?g = "get_config_value ''Settings'' ''SHOW_GUI'' (Some ''true'') w"
  from assms obtain cur where g: "fst ?g = Inr (Some cur)"
    by (cases "fst ?g") (auto simp: toggle_gui_succeeds_def case_prod_beta split: option.splits)
  define new where "new = (if lower cur = ''true'' then ''false'' else ''true'')"
  let ?s = "set_config_value ''Settings'' ''SHOW_GUI'' new (snd ?g)"
  from assms g have ok: "fst ?s = Inr True"
    by (simp add: toggle_gui_succeeds_def case_prod_beta new_def)
  have wf: "wf_entry (lower ''SHOW_GUI'') new"
    by (simp add: new_def wf_entry_show_gui del: lower_literals)
  have sec: "''Settings'' \<noteq> []" "no_line_break ''Settings''"
    by (simp_all add: no_line_break_def)
  have t: "toggle_gui w =
      pause True (py_print (PrintF (NL @ ''SUCCESS: GUI pop-up has been {status}.'')
                              [if lower cur = ''true'' then ''DISABLED'' else ''ENABLED'']) (snd ?s))"
    using g ok by (simp add: toggle_gui_def case_prod_beta Let_def new_def split: sum.splits)
  have "fst (get_config_value ''Settings'' ''SHOW_GUI'' fb (snd (toggle_gui w))) = Inr (Some new)" for fb
  proof -
    have "fst (get_config_value ''Settings'' ''SHOW_GUI'' fb (snd (toggle_gui w))) =
          fst (get_config_value ''Settings'' ''SHOW_GUI'' fb (snd ?s))"
      by (rule get_config_value_cong) (simp_all add: t)
    also have "\<dots> = Inr (Some new)"
      using ok sec wf by (rule get_after_set)
    finally show ?thesis .
  qed
  with g show ?thesis
    unfolding new_def by blast
qed

lemma toggle_gui_show_gui:
  assumes "toggle_gui_succeeds w"
  shows "show_gui w \<noteq> None \<and> show_gui (snd (toggle_gui w)) = map_option Not (show_gui w)"
proof -
  from toggle_gui_store[OF assms] obtain cur
    where g: "fst (get_config_value ''Settings'' ''SHOW_GUI'' (Some ''true'') w) = Inr (Some cur)"
      and s: "fst (get_config_value ''Settings'' ''SHOW_GUI'' (Some ''true'') (snd (toggle_gui w))) =
                   Inr (Some (if lower cur = ''true'' then ''false'' else ''true''))"
    by blast
  show ?thesis
    unfolding show_gui_def g s by simp
qed

text \<open>
  Claim C10. After a successful call of \<open>toggle_gui\<close>, what is read for \<open>[Settings] SHOW_GUI\<close>
  is \<open>true\<close> or \<open>false\<close>, whatever was stored before; the effective setting is the opposite
  of what it was, and after a second successful call it is what it was at first.
\<close>

theorem gui_toggle:
  assumes "toggle_gui_succeeds w"
  shows "(\<forall>fb. fst (get_config_value ''Settings'' ''SHOW_GUI'' fb (snd (toggle_gui w))) = Inr (Some ''true'') \<or>
               fst (get_config_value ''Settings'' ''SHOW_GUI'' fb (snd (toggle_gui w))) = Inr (Some ''false'')) \<and>
         show_gui w \<noteq> None \<and>
         show_gui (snd (toggle_gui w)) = map_option Not (show_gui w) \<and>
         (toggle_gui_succeeds (snd (toggle_gui w)) \<longrightarrow>
            show_gui (snd (toggle_gui (snd (toggle_gui w)))) = show_gui w)"
proof -
  from toggle_gui_store[OF assms] obtain cur where
    s: "\<And>fb. fst (get_config_value ''Settings'' ''SHOW_GUI'' fb (snd (toggle_gui w))) =
                   Inr (Some (if lower cur = ''true'' then ''false'' else ''true''))"
    by blast
  have 1: "\<forall>fb. fst (get_config_value ''Settings'' ''SHOW_GUI'' fb (snd (toggle_gui w))) = Inr (Some ''true'') \<or>
               fst (get_config_value ''Settings'' ''SHOW_GUI'' fb (snd (toggle_gui w))) = Inr (Some ''false'')"
    unfolding s by simp
  from toggle_gui_show_gui[OF assms]
  have 2: "show_gui w \<noteq> None" and 3: "show_gui (snd (toggle_gui w)) = map_option Not (show_gui w)"
    by simp_all
  have 4: "toggle_gui_succeeds (snd (toggle_gui w)) \<longrightarrow>
            show_gui (snd (toggle_gui (snd (toggle_gui w)))) = show_gui w"
  proof
    assume "toggle_gui_succeeds (snd (toggle_gui w))"
    from toggle_gui_show_gui[OF this]
    have "show_gui (snd (toggle_gui (snd (toggle_gui w)))) = map_option Not (map_option Not (show_gui w))"
      unfolding 3 by simp
    then show "show_gui (snd (toggle_gui (snd (toggle_gui w)))) = show_gui w"
      by (simp add: option.map_comp comp_def option.map_ident)
  qed
  show ?thesis
    using 1 2 3 4 by (intro conjI)
qed

theorem gui_toggle_witness:
  "show_gui example_world_key = Some True \<and>
   fst (get_config_value ''Settings'' ''SHOW_GUI'' None (snd (toggle_gui example_world_key))) = Inr (Some ''false'') \<and>
   show_gui (snd (toggle_gui example_world_key)) = Some False \<and>
   show_gui (snd (toggle_gui (snd (toggle_gui example_world_key)))) = Some True"
proof -
  have 1: "toggle_gui_succeeds example_world_key"
    by code_simp
  have 2: "toggle_gui_succeeds (snd (toggle_gui example_world_key))"
    by code_simp
  have 3: "show_gui example_world_key = Some True"
    by code_simp
  have 4: "fst (get_config_value ''Settings'' ''SHOW_GUI'' None (snd (toggle_gui example_world_key))) \<noteq> Inr (Some ''true'')"
    by code_simp
  from gui_toggle[OF 1] 2 3 4 show ?thesis
    by auto
qed

end
